theory Spec2Isabelle
  imports Complex_Main "HOL-Library.Word" "HOL-Library.Multiset" "HOL-Library.Monad_Syntax"
    "HOL-Library.List_Lexorder" "HOL-Library.Product_Lexorder" "HOL-Library.Log_Nat"
begin

unbundle bit_operations_syntax

section \<open>cursor\_mapper: a shallow embedding of src/main.cpp\<close>

text \<open>
  Conventions of the embedding.
  \<^item> \<^verbatim>\<open>LONG\<close> coordinates are \<^typ>\<open>int\<close>. Signed overflow is undefined behaviour in C++,
    so the model describes the executions the language defines: those whose LONG
    arithmetic stays inside the 32-bit range.
  \<^item> \<^verbatim>\<open>double\<close> is IEEE-754 binary64. A finite \<^verbatim>\<open>double\<close> is carried as the \<^typ>\<open>real\<close> it
    denotes, and every conversion and arithmetic operation of the source rounds its exact
    result to the nearest representable value, ties to the even significand (section
    "Double-precision arithmetic"). Comparisons, negation and \<^verbatim>\<open>std::abs\<close> are exact.
  \<^item> A division in \<^verbatim>\<open>FindExitEdge\<close> is written \<open>fdiv\<close>, which has no result on a zero
    denominator, so that "no division by zero is evaluated" is a statement about the model.
  \<^item> Operating-system services (\<^verbatim>\<open>EnumDisplayMonitors\<close>, \<^verbatim>\<open>MonitorFromPoint\<close>,
    \<^verbatim>\<open>SetCursorPos\<close>) are parameters of the functions that call them.
\<close>

subsection \<open>Data structures\<close>

record POINT =
  pt_x :: int
  pt_y :: int

record RECT =
  rleft :: int
  rtop :: int
  rright :: int
  rbottom :: int

text \<open>\<^verbatim>\<open>HMONITOR\<close> is an opaque handle; \<open>0\<close> is \<^verbatim>\<open>nullptr\<close>.\<close>

type_synonym HMONITOR = nat

text \<open>\<^verbatim>\<open>WCHAR\<close> is a 16-bit code unit; \<open>device\<close> is the array \<^verbatim>\<open>WCHAR device[CCHDEVICENAME]\<close>.\<close>

type_synonym WCHAR = "16 word"

record MonitorInfo =
  handle :: HMONITOR
  rc :: RECT
  primary :: bool
  device :: "WCHAR list"

text \<open>\<^verbatim>\<open>enum class Edge { None, Left, Right, Top, Bottom }\<close>; \<open>None\<close> is renamed, the
  name being the constructor of \<^typ>\<open>'a option\<close>.\<close>

datatype Edge = Edge_None | Left | Right | Top | Bottom

record HitResult =
  hit_edge :: Edge
  hit_t :: real
  hit_coord :: real

text \<open>Constants of the Windows SDK headers (the headers are not part of the repository).\<close>

definition LONG_MIN :: int where
  "LONG_MIN = - 2147483648"

definition CCHDEVICENAME :: nat where
  "CCHDEVICENAME = 32"

subsection \<open>Double-precision arithmetic\<close>

text \<open>Rounding to the nearest integer, halfway cases to the even one.\<close>

definition round_even :: "real \<Rightarrow> int" where
  "round_even y =
     (let f = \<lfloor>y\<rfloor>
      in if y - of_int f < 1 / 2 then f
         else if 1 / 2 < y - of_int f then f + 1
         else if even f then f else f + 1)"

text \<open>The binary exponent of a nonzero real: the \<open>e\<close> with \<open>2^e \<le> |x| < 2^(e+1)\<close>
  (lemma \<open>exponent_bounds\<close>).\<close>

definition exponent :: "real \<Rightarrow> int" where
  "exponent x =
     (if 1 \<le> \<bar>x\<bar> then bitlen \<lfloor>\<bar>x\<bar>\<rfloor> - 1 else - bitlen (\<lceil>1 / \<bar>x\<bar>\<rceil> - 1))"

text \<open>\<open>dbl x\<close> is the \<^verbatim>\<open>double\<close> nearest to \<open>x\<close>: \<open>x\<close> rounded to a significand of 53 bits,
  ties to even, which is the rounding of every binary64 operation in the default
  rounding mode. The model puts no bound on the exponent: it has neither overflow to
  infinity nor subnormal numbers. Binary64 has normal numbers from \<open>2^(-1022)\<close> to just
  below \<open>2^1024\<close>; on 32-bit \<^verbatim>\<open>LONG\<close> coordinates every value that \<^verbatim>\<open>FindExitEdge\<close>
  and, called from the hook, \<^verbatim>\<open>RemapCursor\<close> compute is zero or has a magnitude between
  \<open>2^(-116)\<close> and \<open>2^65\<close>, where the model and binary64 agree. Each operation is rounded on
  its own (no fused multiply-add and no extended intermediate precision). The sign of a
  zero is not kept: no comparison distinguishes the two zeros, and a zero is never a
  denominator.\<close>

definition dbl :: "real \<Rightarrow> real" where
  "dbl x = (if x = 0 then 0
            else let u = 2 powi (exponent x - 52) in of_int (round_even (x / u)) * u)"

text \<open>The conversion of a \<^verbatim>\<open>LONG\<close> to \<^verbatim>\<open>double\<close> and the four operations on \<^verbatim>\<open>double\<close>.\<close>

definition of_long :: "int \<Rightarrow> real" where
  "of_long i = dbl (of_int i)"

definition dadd :: "real \<Rightarrow> real \<Rightarrow> real" where
  "dadd a b = dbl (a + b)"

definition dsub :: "real \<Rightarrow> real \<Rightarrow> real" where
  "dsub a b = dbl (a - b)"

definition dmul :: "real \<Rightarrow> real \<Rightarrow> real" where
  "dmul a b = dbl (a * b)"

definition ddiv :: "real \<Rightarrow> real \<Rightarrow> real" where
  "ddiv a b = dbl (a / b)"

subsection \<open>Percentage mapping: \<^verbatim>\<open>RemapCursor\<close>\<close>

text \<open>\<^verbatim>\<open>std::clamp(v, lo, hi)\<close>: "lo if v < lo, hi if hi < v, otherwise v" (the Returns
  clause of the C++ standard). The standard requires \<open>lo \<le> hi\<close>; the theorems below use
  the value of a clamp only where that holds.\<close>

definition std_clamp :: "'a::linorder \<Rightarrow> 'a \<Rightarrow> 'a \<Rightarrow> 'a" where
  "std_clamp v lo hi = (if v < lo then lo else if hi < v then hi else v)"

text \<open>\<^verbatim>\<open>std::lround\<close> of a \<^verbatim>\<open>double\<close>: to the nearest integer, halfway cases away from
  zero. The result is exact.\<close>

definition lround :: "real \<Rightarrow> int" where
  "lround v = (if 0 \<le> v then \<lfloor>v + 1 / 2\<rfloor> else \<lceil>v - 1 / 2\<rceil>)"

text \<open>The six locals \<^verbatim>\<open>ovStart, ovEnd, srcStart, srcEnd, dstStart, dstEnd\<close> selected by
  the edge (source lines 170-180).\<close>

record axis_extents =
  ovStart :: int
  ovEnd :: int
  srcStart :: int
  srcEnd :: int
  dstStart :: int
  dstEnd :: int

definition remap_extents :: "RECT \<Rightarrow> RECT \<Rightarrow> Edge \<Rightarrow> axis_extents" where
  "remap_extents src dst edge =
     (if edge = Left \<or> edge = Right then
        \<lparr>ovStart = max (rtop src) (rtop dst), ovEnd = min (rbottom src) (rbottom dst),
         srcStart = rtop src, srcEnd = rbottom src,
         dstStart = rtop dst, dstEnd = rbottom dst\<rparr>
      else
        \<lparr>ovStart = max (rleft src) (rleft dst), ovEnd = min (rright src) (rright dst),
         srcStart = rleft src, srcEnd = rright src,
         dstStart = rleft dst, dstEnd = rright dst\<rparr>)"

text \<open>\<^verbatim>\<open>bool RemapCursor(src, dst, edge, hitCoord, POINT& out)\<close>: \<open>Some out\<close> is
  \<^verbatim>\<open>true\<close> with the point written, \<open>None\<close> is \<^verbatim>\<open>false\<close> (nothing written).\<close>

definition RemapCursor :: "RECT \<Rightarrow> RECT \<Rightarrow> Edge \<Rightarrow> real \<Rightarrow> POINT option" where
  "RemapCursor src dst edge hitCoord =
     (let e = remap_extents src dst edge;
          srcLen = srcEnd e - srcStart e;
          dstLen = dstEnd e - dstStart e
      in if ovEnd e - ovStart e \<le> 0 \<or> srcLen \<le> 0 \<or> dstLen \<le> 0 then None
         else
           let pct = ddiv (dsub hitCoord (of_long (srcStart e))) (of_long srcLen);
               pct = std_clamp pct 0 1;
               mapped = dstStart e + lround (dmul pct (of_long dstLen));
               mapped = std_clamp mapped (dstStart e + 1) (dstEnd e - 2)
           in case edge of
                Right \<Rightarrow> Some \<lparr>pt_x = rleft dst + 1, pt_y = mapped\<rparr>
              | Left \<Rightarrow> Some \<lparr>pt_x = rright dst - 2, pt_y = mapped\<rparr>
              | Bottom \<Rightarrow> Some \<lparr>pt_x = mapped, pt_y = rtop dst + 1\<rparr>
              | Top \<Rightarrow> Some \<lparr>pt_x = mapped, pt_y = rbottom dst - 2\<rparr>
              | Edge_None \<Rightarrow> None)"

text \<open>Containment of a pixel in a rectangle, half-open as \<^verbatim>\<open>RECT\<close> is
  (\<open>[left, right) \<times> [top, bottom)\<close>), and the interior reached by the one-pixel inset:
  a pixel that is contained and is not one of the rectangle's boundary pixels.\<close>

definition rect_contains :: "RECT \<Rightarrow> POINT \<Rightarrow> bool" where
  "rect_contains r p \<longleftrightarrow>
     rleft r \<le> pt_x p \<and> pt_x p < rright r \<and> rtop r \<le> pt_y p \<and> pt_y p < rbottom r"

definition strictly_inside :: "RECT \<Rightarrow> POINT \<Rightarrow> bool" where
  "strictly_inside r p \<longleftrightarrow>
     rleft r + 1 \<le> pt_x p \<and> pt_x p \<le> rright r - 2 \<and>
     rtop r + 1 \<le> pt_y p \<and> pt_y p \<le> rbottom r - 2"

subsection \<open>Edge detection: \<^verbatim>\<open>FindExitEdge\<close>\<close>

text \<open>The literal \<^verbatim>\<open>1e-9\<close>: the \<^verbatim>\<open>double\<close> nearest to \<open>10^(-9)\<close>, which is
  \<open>4835703278458517 / 2^82\<close> (lemma \<open>tol_value\<close>), a little above \<open>10^(-9)\<close>.\<close>

definition tol :: real where
  "tol = dbl (1 / 10 ^ 9)"

text \<open>A division of two \<^verbatim>\<open>double\<close>s, with no result when the denominator is zero.\<close>

definition fdiv :: "real \<Rightarrow> real \<Rightarrow> real option" where
  "fdiv a b = (if b = 0 then None else Some (ddiv a b))"

text \<open>The \<^verbatim>\<open>outward\<close> flag of the lambda \<^verbatim>\<open>tryEdge\<close> (source lines 110-113).\<close>

definition outward :: "Edge \<Rightarrow> real \<Rightarrow> real \<Rightarrow> bool" where
  "outward e dx dy \<longleftrightarrow>
     (e = Left \<and> dx < 0) \<or> (e = Right \<and> dx > 0) \<or> (e = Top \<and> dy < 0) \<or> (e = Bottom \<and> dy > 0)"

text \<open>The lambda \<^verbatim>\<open>tryEdge\<close> (source lines 106-123). It captures \<open>dx\<close>, \<open>dy\<close> and
  \<open>best\<close> by reference; here they are arguments and the new \<open>best\<close> is returned.\<close>

definition tryEdge :: "real \<Rightarrow> real \<Rightarrow> HitResult \<Rightarrow> Edge \<Rightarrow> real \<Rightarrow> real \<Rightarrow> HitResult" where
  "tryEdge dx dy best e t along =
     (if t < - tol \<or> t > 1 then best
      else if t < tol \<and> \<not> outward e dx dy then best
      else if t < dsub (hit_t best) tol then \<lparr>hit_edge = e, hit_t = t, hit_coord = along\<rparr>
      else if \<bar>dsub t (hit_t best)\<bar> < tol then
        (let horiz = (e = Left \<or> e = Right);
             best = (if horiz \<and> \<bar>dx\<bar> \<ge> \<bar>dy\<bar>
                     then \<lparr>hit_edge = e, hit_t = t, hit_coord = along\<rparr> else best);
             best = (if \<not> horiz \<and> \<bar>dy\<bar> > \<bar>dx\<bar>
                     then \<lparr>hit_edge = e, hit_t = t, hit_coord = along\<rparr> else best)
         in best)
      else best)"

text \<open>\<^verbatim>\<open>HitResult FindExitEdge(POINT p0, POINT p1, const RECT& rc)\<close>. The four blocks
  run in the order of the source: Right, Left, Bottom, Top. The result is \<open>None\<close> only
  if a division with a zero denominator is evaluated.\<close>

definition FindExitEdge :: "POINT \<Rightarrow> POINT \<Rightarrow> RECT \<Rightarrow> HitResult option" where
  "FindExitEdge p0 p1 rect =
     (let dx = dsub (of_long (pt_x p1)) (of_long (pt_x p0));
          dy = dsub (of_long (pt_y p1)) (of_long (pt_y p0));
          best = \<lparr>hit_edge = Edge_None, hit_t = 2, hit_coord = 0\<rparr>
      in do {
        best \<leftarrow> (if dx \<noteq> 0 then do {
                   t \<leftarrow> fdiv (of_long (rright rect - pt_x p0)) dx;
                   let y = dadd (of_long (pt_y p0)) (dmul t dy);
                   Some (if y \<ge> of_long (rtop rect) \<and> y \<le> of_long (rbottom rect)
                         then tryEdge dx dy best Right t y else best)
                 } else Some best);
        best \<leftarrow> (if dx \<noteq> 0 then do {
                   t \<leftarrow> fdiv (of_long (rleft rect - pt_x p0)) dx;
                   let y = dadd (of_long (pt_y p0)) (dmul t dy);
                   Some (if y \<ge> of_long (rtop rect) \<and> y \<le> of_long (rbottom rect)
                         then tryEdge dx dy best Left t y else best)
                 } else Some best);
        best \<leftarrow> (if dy \<noteq> 0 then do {
                   t \<leftarrow> fdiv (of_long (rbottom rect - pt_y p0)) dy;
                   let x = dadd (of_long (pt_x p0)) (dmul t dx);
                   Some (if x \<ge> of_long (rleft rect) \<and> x \<le> of_long (rright rect)
                         then tryEdge dx dy best Bottom t x else best)
                 } else Some best);
        best \<leftarrow> (if dy \<noteq> 0 then do {
                   t \<leftarrow> fdiv (of_long (rtop rect - pt_y p0)) dy;
                   let x = dadd (of_long (pt_x p0)) (dmul t dx);
                   Some (if x \<ge> of_long (rleft rect) \<and> x \<le> of_long (rright rect)
                         then tryEdge dx dy best Top t x else best)
                 } else Some best);
        Some best
      })"

text \<open>The pieces of \<^verbatim>\<open>FindExitEdge\<close>, named for the proofs: the two deltas, the initial
  \<open>best\<close>, and the four blocks in the order the source runs them. Lemma
  \<open>FindExitEdge_blocks\<close> below shows that \<open>FindExitEdge\<close> is their composition.\<close>

definition seg_dx :: "POINT \<Rightarrow> POINT \<Rightarrow> real" where
  "seg_dx p0 p1 = dsub (of_long (pt_x p1)) (of_long (pt_x p0))"

definition seg_dy :: "POINT \<Rightarrow> POINT \<Rightarrow> real" where
  "seg_dy p0 p1 = dsub (of_long (pt_y p1)) (of_long (pt_y p0))"

definition no_hit :: HitResult where
  "no_hit = \<lparr>hit_edge = Edge_None, hit_t = 2, hit_coord = 0\<rparr>"

definition right_block :: "real \<Rightarrow> real \<Rightarrow> POINT \<Rightarrow> RECT \<Rightarrow> HitResult \<Rightarrow> HitResult" where
  "right_block dx dy p0 rect best =
     (if dx \<noteq> 0 then
        (let t = ddiv (of_long (rright rect - pt_x p0)) dx;
             y = dadd (of_long (pt_y p0)) (dmul t dy)
         in if y \<ge> of_long (rtop rect) \<and> y \<le> of_long (rbottom rect)
            then tryEdge dx dy best Right t y else best)
      else best)"

definition left_block :: "real \<Rightarrow> real \<Rightarrow> POINT \<Rightarrow> RECT \<Rightarrow> HitResult \<Rightarrow> HitResult" where
  "left_block dx dy p0 rect best =
     (if dx \<noteq> 0 then
        (let t = ddiv (of_long (rleft rect - pt_x p0)) dx;
             y = dadd (of_long (pt_y p0)) (dmul t dy)
         in if y \<ge> of_long (rtop rect) \<and> y \<le> of_long (rbottom rect)
            then tryEdge dx dy best Left t y else best)
      else best)"

definition bottom_block :: "real \<Rightarrow> real \<Rightarrow> POINT \<Rightarrow> RECT \<Rightarrow> HitResult \<Rightarrow> HitResult" where
  "bottom_block dx dy p0 rect best =
     (if dy \<noteq> 0 then
        (let t = ddiv (of_long (rbottom rect - pt_y p0)) dy;
             x = dadd (of_long (pt_x p0)) (dmul t dx)
         in if x \<ge> of_long (rleft rect) \<and> x \<le> of_long (rright rect)
            then tryEdge dx dy best Bottom t x else best)
      else best)"

definition top_block :: "real \<Rightarrow> real \<Rightarrow> POINT \<Rightarrow> RECT \<Rightarrow> HitResult \<Rightarrow> HitResult" where
  "top_block dx dy p0 rect best =
     (if dy \<noteq> 0 then
        (let t = ddiv (of_long (rtop rect - pt_y p0)) dy;
             x = dadd (of_long (pt_x p0)) (dmul t dx)
         in if x \<ge> of_long (rleft rect) \<and> x \<le> of_long (rright rect)
            then tryEdge dx dy best Top t x else best)
      else best)"

text \<open>The candidates of \<^verbatim>\<open>FindExitEdge\<close>: the calls \<^verbatim>\<open>tryEdge(e, t, along)\<close> it makes, in
  the order it makes them (a boundary test reaches \<^verbatim>\<open>tryEdge\<close> when its denominator is
  nonzero and the crossing is within the rectangle's extent). A candidate is accepted when
  it passes the two early returns of \<^verbatim>\<open>tryEdge\<close>: \<open>t\<close> within \<open>[-1e-9, 1]\<close>, and outward travel
  when \<open>t < 1e-9\<close>. \<open>preferred\<close> is the tie-break of \<^verbatim>\<open>tryEdge\<close>: \<^verbatim>\<open>horiz && |dx| >= |dy|\<close> or
  \<^verbatim>\<open>!horiz && |dy| > |dx|\<close>. Lemma \<open>FindExitEdge_fold\<close> below shows that \<open>FindExitEdge\<close> is
  \<open>tryEdge\<close> run over the candidates.\<close>

definition horiz_edge :: "Edge \<Rightarrow> bool" where
  "horiz_edge e \<longleftrightarrow> e = Left \<or> e = Right"

definition vert_edge :: "Edge \<Rightarrow> bool" where
  "vert_edge e \<longleftrightarrow> e = Top \<or> e = Bottom"

type_synonym candidate = "Edge \<times> real \<times> real"

definition cand_t :: "candidate \<Rightarrow> real" where
  "cand_t c = fst (snd c)"

definition cand_hit :: "candidate \<Rightarrow> HitResult" where
  "cand_hit c = \<lparr>hit_edge = fst c, hit_t = fst (snd c), hit_coord = snd (snd c)\<rparr>"

definition accepted :: "real \<Rightarrow> real \<Rightarrow> candidate \<Rightarrow> bool" where
  "accepted dx dy c \<longleftrightarrow>
     - tol \<le> cand_t c \<and> cand_t c \<le> 1 \<and> (tol \<le> cand_t c \<or> outward (fst c) dx dy)"

definition try_cand :: "real \<Rightarrow> real \<Rightarrow> HitResult \<Rightarrow> candidate \<Rightarrow> HitResult" where
  "try_cand dx dy best c = tryEdge dx dy best (fst c) (fst (snd c)) (snd (snd c))"

definition edge_candidates :: "POINT \<Rightarrow> POINT \<Rightarrow> RECT \<Rightarrow> candidate list" where
  "edge_candidates p0 p1 rect =
     (let dx = seg_dx p0 p1; dy = seg_dy p0 p1;
          tR = ddiv (of_long (rright rect - pt_x p0)) dx;
          yR = dadd (of_long (pt_y p0)) (dmul tR dy);
          tL = ddiv (of_long (rleft rect - pt_x p0)) dx;
          yL = dadd (of_long (pt_y p0)) (dmul tL dy);
          tB = ddiv (of_long (rbottom rect - pt_y p0)) dy;
          xB = dadd (of_long (pt_x p0)) (dmul tB dx);
          tT = ddiv (of_long (rtop rect - pt_y p0)) dy;
          xT = dadd (of_long (pt_x p0)) (dmul tT dx)
      in (if dx \<noteq> 0 \<and> yR \<ge> of_long (rtop rect) \<and> yR \<le> of_long (rbottom rect)
          then [(Right, tR, yR)] else []) @
         (if dx \<noteq> 0 \<and> yL \<ge> of_long (rtop rect) \<and> yL \<le> of_long (rbottom rect)
          then [(Left, tL, yL)] else []) @
         (if dy \<noteq> 0 \<and> xB \<ge> of_long (rleft rect) \<and> xB \<le> of_long (rright rect)
          then [(Bottom, tB, xB)] else []) @
         (if dy \<noteq> 0 \<and> xT \<ge> of_long (rleft rect) \<and> xT \<le> of_long (rright rect)
          then [(Top, tT, xT)] else []))"

fun hv_ordered :: "candidate list \<Rightarrow> bool" where
  "hv_ordered [] = True"
| "hv_ordered (c # cs) =
     (if vert_edge (fst c) then list_all (\<lambda>d. vert_edge (fst d)) cs
      else horiz_edge (fst c) \<and> hv_ordered cs)"

definition preferred :: "real \<Rightarrow> real \<Rightarrow> Edge \<Rightarrow> bool" where
  "preferred dx dy e \<longleftrightarrow> (if e = Left \<or> e = Right then \<bar>dx\<bar> \<ge> \<bar>dy\<bar> else \<bar>dy\<bar> > \<bar>dx\<bar>)"

subsection \<open>Topology signature: \<^verbatim>\<open>BuildTopoSignature\<close>\<close>

text \<open>\<^verbatim>\<open>snprintf\<close> with \<^verbatim>\<open>%ld\<close> and \<^verbatim>\<open>%d\<close>: the decimal digits, with a minus sign for a
  negative value. The buffer of 256 bytes never truncates four 32-bit values and a flag.\<close>

definition digit_char :: "nat \<Rightarrow> char" where
  "digit_char d = char_of (48 + d)"

fun dec_nat :: "nat \<Rightarrow> string" where
  "dec_nat n = (if n < 10 then [digit_char n] else dec_nat (n div 10) @ [digit_char (n mod 10)])"

declare dec_nat.simps [simp del]

definition show_long :: "int \<Rightarrow> string" where
  "show_long i = (if i < 0 then CHR ''-'' # dec_nat (nat (- i)) else dec_nat (nat i))"

text \<open>\<^verbatim>\<open>wmemcmp(a, b, n)\<close>: the first \<open>n\<close> code units compared in order; only the sign of
  the result is used. Both arrays hold \<^verbatim>\<open>CCHDEVICENAME\<close> units, so the second equation is
  reached with \<open>n = 0\<close> only.\<close>

fun wmemcmp :: "WCHAR list \<Rightarrow> WCHAR list \<Rightarrow> nat \<Rightarrow> int" where
  "wmemcmp (a # as) (b # bs) (Suc n) =
     (if a < b then - 1 else if b < a then 1 else wmemcmp as bs n)"
| "wmemcmp as bs n = 0"

text \<open>The comparator of the \<^verbatim>\<open>std::sort\<close> call (source lines 37-42).\<close>

definition monitor_less :: "MonitorInfo \<Rightarrow> MonitorInfo \<Rightarrow> bool" where
  "monitor_less a b =
     (let cmp = wmemcmp (device a) (device b) CCHDEVICENAME
      in if cmp \<noteq> 0 then cmp < 0
         else if rleft (rc a) \<noteq> rleft (rc b) then rleft (rc a) < rleft (rc b)
         else rtop (rc a) < rtop (rc b))"

text \<open>\<^verbatim>\<open>std::sort\<close>. The standard leaves the relative order of elements that the
  comparator does not separate unspecified; the model is insertion sort, which is what the
  common implementations run on ranges this short, and which keeps such elements in their
  input order.\<close>

fun insert_sorted :: "('a \<Rightarrow> 'a \<Rightarrow> bool) \<Rightarrow> 'a \<Rightarrow> 'a list \<Rightarrow> 'a list" where
  "insert_sorted lt x [] = [x]"
| "insert_sorted lt x (y # ys) =
     (if lt x y then x # y # ys else y # insert_sorted lt x ys)"

definition std_sort :: "('a \<Rightarrow> 'a \<Rightarrow> bool) \<Rightarrow> 'a list \<Rightarrow> 'a list" where
  "std_sort lt xs = foldl (\<lambda>sorted x. insert_sorted lt x sorted) [] xs"

text \<open>The device name as appended to the signature (source lines 50-51): the code units
  up to the first zero, each cut to its low byte by \<^verbatim>\<open>static_cast<char>\<close>.\<close>

definition narrow_name :: "WCHAR list \<Rightarrow> string" where
  "narrow_name d = map (\<lambda>w. char_of (unat w)) (takeWhile (\<lambda>w. w \<noteq> 0) (take CCHDEVICENAME d))"

text \<open>The text appended for one monitor (source lines 45-52).\<close>

definition monitor_sig :: "MonitorInfo \<Rightarrow> string" where
  "monitor_sig m =
     show_long (rleft (rc m)) @ '','' @ show_long (rtop (rc m)) @ '','' @
     show_long (rright (rc m)) @ '','' @ show_long (rbottom (rc m)) @ '','' @
     show_long (if primary m then 1 else 0) @ '','' @
     narrow_name (device m) @ '';''"

text \<open>\<^verbatim>\<open>BuildTopoSignature\<close> sorts its argument in place and returns the signature: the
  model returns the sorted vector and the signature.\<close>

definition BuildTopoSignature :: "MonitorInfo list \<Rightarrow> MonitorInfo list \<times> string" where
  "BuildTopoSignature mons =
     (let mons = std_sort monitor_less mons
      in (mons, concat (map monitor_sig mons)))"


subsection \<open>Global state and \<^verbatim>\<open>RefreshMonitors\<close>\<close>

record state =
  g_monitors :: "MonitorInfo list"
  g_lastMonitor :: HMONITOR
  g_lastPos :: POINT
  g_suppressing :: bool
  g_topoSignature :: string

text \<open>The initial values of the globals (source lines 23-26, 57).\<close>

definition g_init :: state where
  "g_init = \<lparr>g_monitors = [], g_lastMonitor = 0,
              g_lastPos = \<lparr>pt_x = LONG_MIN, pt_y = LONG_MIN\<rparr>,
              g_suppressing = False, g_topoSignature = []\<rparr>"

text \<open>\<^verbatim>\<open>RefreshMonitors\<close>; \<open>fresh\<close> is what \<^verbatim>\<open>EnumDisplayMonitors\<close> collected.\<close>

definition RefreshMonitors :: "MonitorInfo list \<Rightarrow> state \<Rightarrow> state" where
  "RefreshMonitors fresh s =
     (let (fresh, sig) = BuildTopoSignature fresh
      in if sig = g_topoSignature s then s
         else s\<lparr>g_monitors := fresh, g_topoSignature := sig, g_lastMonitor := 0,
                g_lastPos := \<lparr>pt_x = LONG_MIN, pt_y = LONG_MIN\<rparr>\<rparr>)"

subsection \<open>The low-level mouse hook\<close>

text \<open>Constants of the Windows SDK headers.\<close>

definition HC_ACTION :: int where
  "HC_ACTION = 0"

definition WM_MOUSEMOVE :: nat where
  "WM_MOUSEMOVE = 512"

definition LLMHF_INJECTED :: "32 word" where
  "LLMHF_INJECTED = 1"

text \<open>The fields of \<^verbatim>\<open>MSLLHOOKSTRUCT\<close> the hook reads.\<close>

record MSLLHOOKSTRUCT =
  pt :: POINT
  flags :: "32 word"

text \<open>What the hook returns: \<^verbatim>\<open>1\<close> (the event is suppressed) or the result of
  \<^verbatim>\<open>CallNextHookEx\<close> (the event is passed on unmodified).\<close>

datatype LRESULT = Return_1 | CallNextHookEx

text \<open>The operating system as the hook sees it. \<^verbatim>\<open>SetCursorPos\<close> may run code of this
  program before it returns (the hook is re-entered for the move it causes), so it takes
  the globals as they are at the call and returns them as they are when it returns,
  with its success flag.\<close>

record os_env =
  MonitorFromPoint :: "POINT \<Rightarrow> HMONITOR"
  SetCursorPos :: "state \<Rightarrow> int \<Rightarrow> int \<Rightarrow> bool \<times> state"

definition FindMonitor :: "state \<Rightarrow> HMONITOR \<Rightarrow> MonitorInfo option" where
  "FindMonitor s h = find (\<lambda>m. handle m = h) (g_monitors s)"

text \<open>The code after the label \<^verbatim>\<open>done:\<close> (source lines 265-275).\<close>

definition hook_done :: "os_env \<Rightarrow> nat \<Rightarrow> MSLLHOOKSTRUCT \<Rightarrow> state \<Rightarrow> LRESULT \<times> state" where
  "hook_done env wParam ms s =
     (CallNextHookEx,
      if wParam = WM_MOUSEMOVE then
        (let cur = MonitorFromPoint env (pt ms)
         in if cur \<noteq> 0 then s\<lparr>g_lastMonitor := cur, g_lastPos := pt ms\<rparr> else s)
      else s)"

text \<open>\<^verbatim>\<open>MouseHookProc\<close>. \<open>FindExitEdge\<close> always has a result (lemma \<open>FindExitEdge_blocks\<close>),
  so the branch for its \<open>None\<close> is never taken.\<close>

definition MouseHookProc :: "os_env \<Rightarrow> int \<Rightarrow> nat \<Rightarrow> MSLLHOOKSTRUCT \<Rightarrow> state \<Rightarrow> LRESULT \<times> state" where
  "MouseHookProc env nCode wParam ms s =
     (if nCode = HC_ACTION \<and> wParam = WM_MOUSEMOVE then
        if flags ms AND LLMHF_INJECTED \<noteq> 0 then (CallNextHookEx, s)
        else if g_suppressing s then (CallNextHookEx, s)
        else
          let p = pt ms; curMon = MonitorFromPoint env p
          in if curMon = 0 then hook_done env wParam ms s
             else if g_lastMonitor s \<noteq> 0 \<and> curMon \<noteq> g_lastMonitor s \<and>
                     pt_x (g_lastPos s) \<noteq> LONG_MIN then
               (case (FindMonitor s (g_lastMonitor s), FindMonitor s curMon) of
                  (Some src, Some dst) \<Rightarrow>
                    (case FindExitEdge (g_lastPos s) p (rc src) of
                       Some hit \<Rightarrow>
                         if hit_edge hit \<noteq> Edge_None then
                           (case RemapCursor (rc src) (rc dst) (hit_edge hit) (hit_coord hit) of
                              Some mapped \<Rightarrow>
                                if pt_x mapped \<noteq> pt_x p \<or> pt_y mapped \<noteq> pt_y p then
                                  (let s = s\<lparr>g_suppressing := True\<rparr>;
                                       (ok, s) = SetCursorPos env s (pt_x mapped) (pt_y mapped);
                                       s = s\<lparr>g_suppressing := False\<rparr>
                                   in if ok then
                                        (Return_1, s\<lparr>g_lastMonitor := MonitorFromPoint env mapped,
                                                      g_lastPos := mapped\<rparr>)
                                      else hook_done env wParam ms s)
                                else hook_done env wParam ms s
                            | None \<Rightarrow> hook_done env wParam ms s)
                         else hook_done env wParam ms s
                     | None \<Rightarrow> hook_done env wParam ms s)
                | _ \<Rightarrow> hook_done env wParam ms s)
             else hook_done env wParam ms s
      else (CallNextHookEx, s))"

text \<open>The message loop of \<^verbatim>\<open>main\<close>, on the one thread that owns the globals: each message
  is a hook call or a topology check (\<^verbatim>\<open>WM_DISPLAYCHANGE\<close>, \<^verbatim>\<open>WM_SETTINGCHANGE\<close>, the timer),
  which runs \<^verbatim>\<open>RefreshMonitors\<close>.\<close>

datatype message =
    MouseEvent int nat MSLLHOOKSTRUCT
  | TopologyCheck "MonitorInfo list"

fun dispatch :: "os_env \<Rightarrow> state \<Rightarrow> message \<Rightarrow> state" where
  "dispatch env s (MouseEvent nCode wParam ms) = snd (MouseHookProc env nCode wParam ms s)"
| "dispatch env s (TopologyCheck fresh) = RefreshMonitors fresh s"

definition message_loop :: "os_env \<Rightarrow> message list \<Rightarrow> state" where
  "message_loop env msgs = foldl (dispatch env) g_init msgs"

subsection \<open>Notions used to state the signature theorems\<close>

text \<open>The (rectangle, primary flag, device name) tuple of a record, and the key the
  comparator orders by: the device name, then \<open>rc.left\<close>, then \<open>rc.top\<close>.\<close>

definition monitor_tuple :: "MonitorInfo \<Rightarrow> RECT \<times> bool \<times> WCHAR list" where
  "monitor_tuple m = (rc m, primary m, device m)"

definition sort_key :: "MonitorInfo \<Rightarrow> WCHAR list \<times> int \<times> int" where
  "sort_key m = (take CCHDEVICENAME (device m), rleft (rc m), rtop (rc m))"

text \<open>The same key and the same signature text, as functions of the tuple.\<close>

definition tuple_key :: "RECT \<times> bool \<times> WCHAR list \<Rightarrow> WCHAR list \<times> int \<times> int" where
  "tuple_key u = (take CCHDEVICENAME (snd (snd u)), rleft (fst u), rtop (fst u))"

definition tuple_sig :: "RECT \<times> bool \<times> WCHAR list \<Rightarrow> string" where
  "tuple_sig u =
     show_long (rleft (fst u)) @ '','' @ show_long (rtop (fst u)) @ '','' @
     show_long (rright (fst u)) @ '','' @ show_long (rbottom (fst u)) @ '','' @
     show_long (if fst (snd u) then 1 else 0) @ '','' @
     narrow_name (snd (snd u)) @ '';''"

definition tuple_body :: "RECT \<times> bool \<times> WCHAR list \<Rightarrow> string" where
  "tuple_body u =
     show_long (rleft (fst u)) @ CHR '','' # show_long (rtop (fst u)) @ CHR '','' #
     show_long (rright (fst u)) @ CHR '','' # show_long (rbottom (fst u)) @ CHR '','' #
     show_long (if fst (snd u) then 1 else 0) @ CHR '','' # narrow_name (snd (snd u))"

text \<open>The characters of a decimal rendering: the digits, and the minus sign.\<close>

definition numeric :: "char \<Rightarrow> bool" where
  "numeric c \<longleftrightarrow> (48::nat) \<le> of_char c \<and> of_char c \<le> (57::nat)"

definition long_char :: "char \<Rightarrow> bool" where
  "long_char c \<longleftrightarrow> numeric c \<or> c = CHR ''-''"

text \<open>A device array that holds a plain name: \<^verbatim>\<open>CCHDEVICENAME\<close> code units, a name of
  single-byte characters other than \<open>;\<close> (code 59), then zeros to the end.\<close>

definition plain_name :: "WCHAR list \<Rightarrow> bool" where
  "plain_name d \<longleftrightarrow>
     length d = CCHDEVICENAME \<and>
     list_all (\<lambda>w. unat w < 256 \<and> w \<noteq> 59) (takeWhile (\<lambda>w. w \<noteq> 0) d) \<and>
     list_all (\<lambda>w. w = 0) (dropWhile (\<lambda>w. w \<noteq> 0) d)"

subsection \<open>Two example displays\<close>

text \<open>A 1920x1080 primary display with a 2560x1440 display to its right; an environment
  in which \<^verbatim>\<open>SetCursorPos\<close> succeeds, one in which it fails, and one in which it reports,
  as its result, the suppression flag it is called with; and the globals after the first
  refresh and a move to (1919, 540) on the first display.\<close>

definition dev :: "string \<Rightarrow> WCHAR list" where
  "dev s = map (\<lambda>c. of_nat (of_char c)) s @ replicate (CCHDEVICENAME - length s) 0"

definition mon1 :: MonitorInfo where
  "mon1 = \<lparr>handle = 1, rc = \<lparr>rleft = 0, rtop = 0, rright = 1920, rbottom = 1080\<rparr>,
           primary = True, device = dev ''DISPLAY1''\<rparr>"

definition mon2 :: MonitorInfo where
  "mon2 = \<lparr>handle = 2, rc = \<lparr>rleft = 1920, rtop = 0, rright = 4480, rbottom = 1440\<rparr>,
           primary = False, device = dev ''DISPLAY2''\<rparr>"

definition display_at :: "POINT \<Rightarrow> HMONITOR" where
  "display_at p =
     (if rect_contains (rc mon1) p then 1 else if rect_contains (rc mon2) p then 2 else 0)"

definition env_ok :: os_env where
  "env_ok = \<lparr>MonitorFromPoint = display_at, SetCursorPos = (\<lambda>s x y. (True, s))\<rparr>"

definition env_fail :: os_env where
  "env_fail = \<lparr>MonitorFromPoint = display_at, SetCursorPos = (\<lambda>s x y. (False, s))\<rparr>"

definition env_probe :: os_env where
  "env_probe = \<lparr>MonitorFromPoint = display_at, SetCursorPos = (\<lambda>s x y. (g_suppressing s, s))\<rparr>"

definition tracking_state :: state where
  "tracking_state =
     \<lparr>g_monitors = [mon1, mon2], g_lastMonitor = 1, g_lastPos = \<lparr>pt_x = 1919, pt_y = 540\<rparr>,
      g_suppressing = False,
      g_topoSignature = ''0,0,1920,1080,1,DISPLAY1;1920,0,4480,1440,0,DISPLAY2;''\<rparr>"

section \<open>Theorems\<close>

subsection \<open>Rounding to \<^verbatim>\<open>double\<close>\<close>

text \<open>The rounding \<open>dbl\<close> picks a value in the binade of its argument, is monotone, odd,
  and leaves every value with a significand of at most 53 bits unchanged; in particular the
  integers up to \<open>2^53\<close> in magnitude, which include every 32-bit \<^verbatim>\<open>LONG\<close> and every
  difference of two.\<close>

lemma exponent_bounds:
  assumes "x \<noteq> 0"
  shows "2 powi exponent x \<le> \<bar>x\<bar>" and "\<bar>x\<bar> < 2 powi (exponent x + 1)"
proof -
  have "2 powi exponent x \<le> \<bar>x\<bar> \<and> \<bar>x\<bar> < 2 powi (exponent x + 1)"
  proof (cases "1 \<le> \<bar>x\<bar>")
    case True
    define n where "n = \<lfloor>\<bar>x\<bar>\<rfloor>"
    have n1: "1 \<le> n" using True by (simp add: n_def)
    then have b1: "1 \<le> bitlen n" by (simp add: bitlen_alt_def)
    have e: "exponent x = bitlen n - 1" using True by (simp add: exponent_def n_def)
    from bitlen_bounds [of n] n1
    have lo: "2 ^ nat (bitlen n - 1) \<le> n" and hi: "n < 2 ^ nat (bitlen n)" by simp_all
    have "(2::real) powi (bitlen n - 1) = 2 ^ nat (bitlen n - 1)"
      using b1 by (simp add: power_int_def)
    also have "\<dots> = real_of_int (2 ^ nat (bitlen n - 1))" by simp
    also have "\<dots> \<le> real_of_int n" using lo by (simp only: of_int_le_iff)
    also have "\<dots> \<le> \<bar>x\<bar>" by (simp add: n_def)
    finally have A: "2 powi exponent x \<le> \<bar>x\<bar>" by (simp add: e)
    have "n + 1 \<le> 2 ^ nat (bitlen n)" using hi by simp
    then have "real_of_int (n + 1) \<le> real_of_int (2 ^ nat (bitlen n))" by (simp only: of_int_le_iff)
    moreover have "\<bar>x\<bar> < real_of_int (n + 1)" unfolding n_def by linarith
    ultimately have "\<bar>x\<bar> < 2 ^ nat (bitlen n)" by simp
    also have "\<dots> = (2::real) powi (bitlen n)" using b1 by (simp add: power_int_def)
    finally have B: "\<bar>x\<bar> < 2 powi (exponent x + 1)" by (simp add: e)
    from A B show ?thesis ..
  next
    case False
    define y where "y = 1 / \<bar>x\<bar>"
    define n where "n = \<lceil>y\<rceil> - 1"
    have xpos: "0 < \<bar>x\<bar>" using assms by simp
    have y1: "1 < y" using False xpos by (simp add: y_def)
    then have n1: "1 \<le> n" unfolding n_def by linarith
    then have b1: "1 \<le> bitlen n" by (simp add: bitlen_alt_def)
    have e: "exponent x = - bitlen n" using False by (simp add: exponent_def n_def y_def)
    from bitlen_bounds [of n] n1
    have lo: "2 ^ nat (bitlen n - 1) \<le> n" and hi: "n < 2 ^ nat (bitlen n)" by simp_all
    have "\<lceil>y\<rceil> \<le> 2 ^ nat (bitlen n)" using hi by (simp add: n_def)
    then have "real_of_int \<lceil>y\<rceil> \<le> real_of_int (2 ^ nat (bitlen n))" by (simp only: of_int_le_iff)
    then have yle: "y \<le> 2 ^ nat (bitlen n)" by (simp add: ceiling_le_iff)
    have "real_of_int (2 ^ nat (bitlen n - 1)) \<le> real_of_int n" using lo by (simp only: of_int_le_iff)
    then have "(2::real) ^ nat (bitlen n - 1) \<le> real_of_int n" by simp
    moreover have "real_of_int n < y" unfolding n_def by linarith
    ultimately have ygt: "2 ^ nat (bitlen n - 1) < y" by linarith
    have "(2::real) powi exponent x = 1 / 2 ^ nat (bitlen n)"
      using b1 by (simp add: e power_int_def field_simps)
    also have "\<dots> \<le> \<bar>x\<bar>"
      using yle xpos by (simp add: y_def field_simps)
    finally have A: "2 powi exponent x \<le> \<bar>x\<bar>" .
    have "\<bar>x\<bar> < 1 / 2 ^ nat (bitlen n - 1)"
      using ygt xpos by (simp add: y_def field_simps)
    also have "\<dots> = (2::real) powi (exponent x + 1)"
    proof (cases "bitlen n = 1")
      case True
      then show ?thesis by (simp add: e)
    next
      case False
      then have "exponent x + 1 < 0" using b1 by (simp add: e)
      moreover have "nat (- (exponent x + 1)) = nat (bitlen n - 1)" by (simp add: e)
      ultimately show ?thesis by (simp add: power_int_def field_simps)
    qed
    finally have B: "\<bar>x\<bar> < 2 powi (exponent x + 1)" .
    from A B show ?thesis ..
  qed
  then show "2 powi exponent x \<le> \<bar>x\<bar>" and "\<bar>x\<bar> < 2 powi (exponent x + 1)" by simp_all
qed

lemma pow2_less_cancel: "(2::real) powi a < 2 powi b \<Longrightarrow> a < b"
  using power_int_increasing [of b a "2::real"] by (cases "a < b") auto

lemma pow2_le_abs_nz:
  assumes "(2::real) powi e \<le> \<bar>x\<bar>"
  shows "x \<noteq> 0"
proof
  assume "x = 0"
  with assms have "(2::real) powi e \<le> 0" by simp
  moreover have "0 < (2::real) powi e" by simp
  ultimately show False by linarith
qed

lemma exponent_unique:
  assumes "2 powi e \<le> \<bar>x\<bar>" and "\<bar>x\<bar> < 2 powi (e + 1)"
  shows "exponent x = e"
proof -
  have nz: "x \<noteq> 0" using assms(1) by (rule pow2_le_abs_nz)
  note b = exponent_bounds [OF nz]
  have "(2::real) powi e < 2 powi (exponent x + 1)" using assms(1) b(2) by linarith
  then have "e < exponent x + 1" by (rule pow2_less_cancel)
  moreover have "(2::real) powi exponent x < 2 powi (e + 1)" using assms(2) b(1) by linarith
  then have "exponent x < e + 1" by (rule pow2_less_cancel)
  ultimately show ?thesis by simp
qed


lemma round_even_of_int [simp]: "round_even (of_int n) = n"
  by (simp add: round_even_def)

lemma round_even_range: "\<lfloor>y\<rfloor> \<le> round_even y" "round_even y \<le> \<lfloor>y\<rfloor> + 1"
  by (simp_all add: round_even_def Let_def)

lemma round_even_mono:
  assumes "x \<le> y"
  shows "round_even x \<le> round_even y"
proof (cases "\<lfloor>x\<rfloor> = \<lfloor>y\<rfloor>")
  case True
  then show ?thesis
    using assms by (auto simp: round_even_def Let_def)
next
  case False
  then have "\<lfloor>x\<rfloor> < \<lfloor>y\<rfloor>"
    using floor_mono [OF assms] by simp
  then have "\<lfloor>x\<rfloor> + 1 \<le> \<lfloor>y\<rfloor>" by simp
  then show ?thesis
    using round_even_range(2) [of x] round_even_range(1) [of y] by linarith
qed

lemma round_even_minus: "round_even (- y) = - round_even y"
proof (cases "y = of_int \<lfloor>y\<rfloor>")
  case True
  then obtain n where "y = of_int n" ..
  then have "round_even (- of_int n) = - round_even (of_int n)"
    by (simp flip: of_int_minus)
  with \<open>y = of_int n\<close> show ?thesis by simp
next
  case False
  then have lt: "of_int \<lfloor>y\<rfloor> < y"
    using of_int_floor_le [of y] by linarith
  have fl: "\<lfloor>- y\<rfloor> = - \<lfloor>y\<rfloor> - 1"
    using lt by (intro floor_unique) linarith+
  show ?thesis
    using lt by (auto simp: round_even_def Let_def fl)
qed

lemma round_even_0 [simp]: "round_even 0 = 0"
  using round_even_of_int [of 0] by simp

lemma round_even_abs: "\<bar>round_even y\<bar> = round_even \<bar>y\<bar>"
proof (cases "0 \<le> y")
  case True
  then have "0 \<le> round_even y"
    using round_even_mono [of 0 y] by simp
  with True show ?thesis by simp
next
  case False
  then have "round_even y \<le> 0"
    using round_even_mono [of y 0] by simp
  with False show ?thesis by (simp add: round_even_minus)
qed


lemma dbl_0 [simp]: "dbl 0 = 0"
  by (simp add: dbl_def)

lemma pow2_pos [simp]: "0 < (2::real) powi e"
  by simp

lemma pow2_split: "(2::real) powi (a + b) = 2 powi a * 2 powi b"
  by (simp add: power_int_add)

lemma pow2_52: "(2::real) powi e = 2 ^ 52 * 2 powi (e - 52)"
  using pow2_split [of 52 "e - 52"] by simp

lemma pow2_53: "(2::real) powi (e + 1) = 2 ^ 53 * 2 powi (e - 52)"
  using pow2_split [of 53 "e - 52"] by (simp add: add.commute)

lemma dbl_binade:
  assumes "2 powi e \<le> \<bar>x\<bar>" and "\<bar>x\<bar> < 2 powi (e + 1)"
  shows "dbl x = of_int (round_even (x / 2 powi (e - 52))) * 2 powi (e - 52)"
proof -
  have "x \<noteq> 0" using assms(1) by (rule pow2_le_abs_nz)
  then show ?thesis
    by (simp add: dbl_def exponent_unique [OF assms] Let_def)
qed

lemma exponent_minus [simp]: "exponent (- x) = exponent x"
  by (simp add: exponent_def)

lemma dbl_minus: "dbl (- x) = - dbl x"
  by (simp add: dbl_def Let_def round_even_minus)

lemma dbl_pos_bounds:
  assumes "2 powi e \<le> x" and "x < 2 powi (e + 1)"
  shows "2 powi e \<le> dbl x" and "dbl x \<le> 2 powi (e + 1)"
proof -
  define u :: real where "u = 2 powi (e - 52)"
  have u: "0 < u" by (simp add: u_def)
  have "0 < (2::real) powi e" by simp
  with assms(1) have xpos: "0 < x" by linarith
  then have ax: "\<bar>x\<bar> = x" by simp
  have d: "dbl x = of_int (round_even (x / u)) * u"
    unfolding u_def using assms by (intro dbl_binade) (simp_all add: ax)
  have "2 ^ 52 * u \<le> x" using assms(1) pow2_52 [of e] by (simp add: u_def)
  then have "real_of_int (2 ^ 52) \<le> x / u" using u by (simp add: field_simps)
  then have "round_even (real_of_int (2 ^ 52)) \<le> round_even (x / u)" by (rule round_even_mono)
  then have "2 ^ 52 \<le> round_even (x / u)" by (simp only: round_even_of_int)
  then have "real_of_int (2 ^ 52) \<le> real_of_int (round_even (x / u))" by (simp only: of_int_le_iff)
  then have "2 ^ 52 * u \<le> real_of_int (round_even (x / u)) * u" using u by simp
  then show "2 powi e \<le> dbl x" using pow2_52 [of e] by (simp add: d u_def)
  have "x \<le> 2 ^ 53 * u" using assms(2) pow2_53 [of e] by (simp add: u_def)
  then have "x / u \<le> real_of_int (2 ^ 53)" using u by (simp add: field_simps)
  then have "round_even (x / u) \<le> round_even (real_of_int (2 ^ 53))" by (rule round_even_mono)
  then have "round_even (x / u) \<le> 2 ^ 53" by (simp only: round_even_of_int)
  then have "real_of_int (round_even (x / u)) \<le> real_of_int (2 ^ 53)" by (simp only: of_int_le_iff)
  then have "real_of_int (round_even (x / u)) * u \<le> 2 ^ 53 * u" using u by simp
  then show "dbl x \<le> 2 powi (e + 1)" using pow2_53 [of e] by (simp add: d u_def)
qed

lemma dbl_pos: "0 < x \<Longrightarrow> 0 < dbl x"
proof -
  assume "0 < x"
  then have nz: "x \<noteq> 0" and ax: "\<bar>x\<bar> = x" by simp_all
  have "2 powi exponent x \<le> dbl x"
    using exponent_bounds [OF nz] by (intro dbl_pos_bounds) (simp_all add: ax)
  moreover have "0 < (2::real) powi exponent x" by simp
  ultimately show ?thesis by linarith
qed

lemma dbl_neg: "x < 0 \<Longrightarrow> dbl x < 0"
  using dbl_pos [of "- x"] by (simp add: dbl_minus)

lemma dbl_mono_pos:
  assumes "0 < x" and "x \<le> y"
  shows "dbl x \<le> dbl y"
proof -
  have nz: "x \<noteq> 0" "y \<noteq> 0" and ax: "\<bar>x\<bar> = x" "\<bar>y\<bar> = y" using assms by simp_all
  note bx = exponent_bounds [OF nz(1), unfolded ax]
  note ey = exponent_bounds [OF nz(2), unfolded ax]
  have "(2::real) powi exponent x < 2 powi (exponent y + 1)"
    using bx(1) ey(2) assms(2) by linarith
  then have le: "exponent x \<le> exponent y"
    using pow2_less_cancel by fastforce
  show ?thesis
  proof (cases "exponent x = exponent y")
    case True
    define u :: real where "u = 2 powi (exponent y - 52)"
    have u: "0 < u" by (simp add: u_def)
    have "x / u \<le> y / u" using assms(2) u by (simp add: divide_right_mono)
    then have "round_even (x / u) \<le> round_even (y / u)" by (rule round_even_mono)
    then have "real_of_int (round_even (x / u)) * u \<le> real_of_int (round_even (y / u)) * u"
      using u by simp
    then show ?thesis
      using nz True by (simp add: dbl_def Let_def u_def)
  next
    case False
    then have "exponent x + 1 \<le> exponent y" using le by simp
    then have "(2::real) powi (exponent x + 1) \<le> 2 powi exponent y"
      by (intro power_int_increasing) simp_all
    moreover have "dbl x \<le> 2 powi (exponent x + 1)"
      using bx by (rule dbl_pos_bounds)
    moreover have "2 powi exponent y \<le> dbl y"
      using ey by (rule dbl_pos_bounds)
    ultimately show ?thesis by linarith
  qed
qed

lemma dbl_mono:
  assumes "x \<le> y"
  shows "dbl x \<le> dbl y"
proof -
  consider "0 < x" | "x = 0" | "x < 0" "0 \<le> y" | "x < 0" "y < 0" by linarith
  then show ?thesis
  proof cases
    case 1
    then show ?thesis using assms by (rule dbl_mono_pos)
  next
    case 2
    then show ?thesis
      using assms dbl_pos [of y] by (cases "y = 0") auto
  next
    case 3
    then show ?thesis
      using dbl_neg [of x] dbl_pos [of y] by (cases "y = 0") auto
  next
    case 4
    then have "dbl (- y) \<le> dbl (- x)"
      using assms by (intro dbl_mono_pos) simp_all
    then show ?thesis by (simp add: dbl_minus)
  qed
qed


lemma dbl_exact:
  assumes "\<bar>m\<bar> < 2 ^ 53"
  shows "dbl (of_int m * 2 powi k) = of_int m * 2 powi k"
proof (cases "m = 0")
  case True
  then show ?thesis by simp
next
  case False
  define x :: real where "x = of_int m * 2 powi k"
  define e where "e = exponent x"
  have nz: "x \<noteq> 0" using False by (simp add: x_def)
  have ax: "\<bar>x\<bar> = of_int \<bar>m\<bar> * 2 powi k" by (simp add: x_def abs_mult)
  have "real_of_int \<bar>m\<bar> < real_of_int (2 ^ 53)" using assms by (simp only: of_int_less_iff)
  then have "\<bar>x\<bar> < 2 ^ 53 * 2 powi k" by (simp add: ax)
  also have "\<dots> = 2 powi (53 + k)" using pow2_split [of 53 k] by simp
  finally have "(2::real) powi e < 2 powi (53 + k)"
    using exponent_bounds(1) [OF nz] by (simp add: e_def)
  then have "e < 53 + k" by (rule pow2_less_cancel)
  then have n: "0 \<le> k - e + 52" by simp
  have "x / 2 powi (e - 52) = of_int m * (2 powi k / 2 powi (e - 52))" by (simp add: x_def)
  also have "2 powi k / 2 powi (e - 52) = (2::real) powi (k - (e - 52))"
    by (simp add: power_int_diff)
  also have "\<dots> = 2 ^ nat (k - e + 52)" using n by (simp add: power_int_def algebra_simps)
  also have "of_int m * 2 ^ nat (k - e + 52) = real_of_int (m * 2 ^ nat (k - e + 52))" by simp
  finally have "round_even (x / 2 powi (e - 52)) = m * 2 ^ nat (k - e + 52)"
    by (simp only: round_even_of_int)
  then have "dbl x = real_of_int (m * 2 ^ nat (k - e + 52)) * 2 powi (e - 52)"
    using nz by (simp add: dbl_def Let_def e_def)
  also have "\<dots> = of_int m * (2 powi (k - e + 52) * 2 powi (e - 52))"
    using n by (simp add: power_int_def)
  also have "2 powi (k - e + 52) * 2 powi (e - 52) = (2::real) powi k"
    using pow2_split [of "k - e + 52" "e - 52"] by simp
  finally show ?thesis by (simp add: x_def)
qed

lemma dbl_of_int:
  assumes "\<bar>i\<bar> \<le> 2 ^ 53"
  shows "dbl (of_int i) = of_int i"
proof (cases "\<bar>i\<bar> < 2 ^ 53")
  case True
  then show ?thesis using dbl_exact [of i 0] by simp
next
  case False
  then have "i = 2 ^ 53 \<or> i = - (2 ^ 53)" using assms by auto
  then show ?thesis using dbl_exact [of 1 53] dbl_exact [of "- 1" 53] by auto
qed

lemma dbl_idem [simp]: "dbl (dbl x) = dbl x"
proof (cases "x = 0")
  case True
  then show ?thesis by simp
next
  case False
  define e where "e = exponent x"
  define M where "M = round_even (x / 2 powi (e - 52))"
  have d: "dbl x = of_int M * 2 powi (e - 52)"
    using False by (simp add: dbl_def Let_def e_def M_def)
  have u: "0 < (2::real) powi (e - 52)" by simp
  have "\<bar>x\<bar> < 2 ^ 53 * 2 powi (e - 52)"
    using exponent_bounds(2) [OF False] pow2_53 [of e] by (simp add: e_def)
  then have "\<bar>x\<bar> / 2 powi (e - 52) \<le> real_of_int (2 ^ 53)"
    using u by (simp add: field_simps)
  then have "round_even (\<bar>x\<bar> / 2 powi (e - 52)) \<le> round_even (real_of_int (2 ^ 53))"
    by (rule round_even_mono)
  moreover have "\<bar>x\<bar> / 2 powi (e - 52) = \<bar>x / 2 powi (e - 52)\<bar>" by simp
  ultimately have M: "\<bar>M\<bar> \<le> 2 ^ 53"
    by (simp only: round_even_of_int round_even_abs M_def)
  show ?thesis
  proof (cases "\<bar>M\<bar> < 2 ^ 53")
    case True
    then show ?thesis unfolding d by (rule dbl_exact)
  next
    case False
    then consider "M = 2 ^ 53" | "M = - (2 ^ 53)" using M by fastforce
    then show ?thesis
    proof cases
      case 1
      then have "dbl x = of_int 1 * 2 powi (e + 1)" using pow2_53 [of e] by (simp add: d)
      moreover have "dbl (of_int 1 * 2 powi (e + 1)) = of_int 1 * 2 powi (e + 1)"
        by (rule dbl_exact) simp
      ultimately show ?thesis by simp
    next
      case 2
      then have "dbl x = of_int (- 1) * 2 powi (e + 1)" using pow2_53 [of e] by (simp add: d)
      moreover have "dbl (of_int (- 1) * 2 powi (e + 1)) = of_int (- 1) * 2 powi (e + 1)"
        by (rule dbl_exact) simp
      ultimately show ?thesis by simp
    qed
  qed
qed

lemma of_long_exact: "\<bar>i\<bar> \<le> 2 ^ 53 \<Longrightarrow> of_long i = of_int i"
  by (simp add: of_long_def dbl_of_int)

lemma of_long_mono: "i \<le> j \<Longrightarrow> of_long i \<le> of_long j"
  by (simp add: of_long_def dbl_mono)

lemma of_long_0 [simp]: "of_long 0 = 0"
  by (simp add: of_long_def)

lemma tol_value: "tol = 4835703278458517 / 2 ^ 82"
  unfolding tol_def by code_simp

lemma tol_pos: "0 < tol"
  by (simp add: tol_value)

lemma tol_small: "tol < 1"
  by (simp add: tol_value)

lemma dbl_tol [simp]: "dbl tol = tol"
  by (simp add: tol_def)

text \<open>Equations for evaluation: a conversion or an operation whose exact result is an
  integer of at most 53 bits involves no rounding, and the tolerance is a constant.\<close>

lemma dbl_code [code]:
  "dbl x = (if x = of_int \<lfloor>x\<rfloor> \<and> \<bar>x\<bar> \<le> 9007199254740992 then x
            else let u = 2 powi (exponent x - 52) in of_int (round_even (x / u)) * u)"
proof (cases "x = of_int \<lfloor>x\<rfloor> \<and> \<bar>x\<bar> \<le> 9007199254740992")
  case True
  then have "\<bar>real_of_int \<lfloor>x\<rfloor>\<bar> \<le> real_of_int 9007199254740992" by simp
  then have "real_of_int \<bar>\<lfloor>x\<rfloor>\<bar> \<le> real_of_int 9007199254740992" by simp
  then have "\<bar>\<lfloor>x\<rfloor>\<bar> \<le> 9007199254740992" by (simp only: of_int_le_iff)
  then have "\<bar>\<lfloor>x\<rfloor>\<bar> \<le> 2 ^ 53" by simp
  then have "dbl (of_int \<lfloor>x\<rfloor>) = of_int \<lfloor>x\<rfloor>" by (rule dbl_of_int)
  with True show ?thesis by simp
next
  case False
  then have "x \<noteq> 0" by auto
  with False show ?thesis by (auto simp: dbl_def)
qed

lemma of_long_code [code]:
  "of_long i = (if \<bar>i\<bar> \<le> 9007199254740992 then of_int i else dbl (of_int i))"
  using of_long_exact [of i] by (simp add: of_long_def)

lemma tol_code [code]: "tol = 4835703278458517 / 4835703278458516698824704"
  by (simp add: tol_value)

text \<open>The operations on zero, on the tolerance, and the sign and size of a quotient.\<close>

lemma ddiv_0 [simp]: "ddiv 0 d = 0"
  by (simp add: ddiv_def)

lemma dmul_0 [simp]: "dmul 0 d = 0"
  by (simp add: dmul_def)

lemma dadd_of_long_0 [simp]: "dadd (of_long i) 0 = of_long i"
  by (simp add: dadd_def of_long_def)

lemma dsub_0_tol [simp]: "dsub 0 tol = - tol"
  using dbl_minus [of tol] by (simp add: dsub_def)

lemma dsub_self [simp]: "dsub a a = 0"
  by (simp add: dsub_def)

lemma dsub_2_tol: "1 < dsub 2 tol"
proof -
  have "dbl 1 \<le> dbl (2 - tol)"
    using tol_small by (intro dbl_mono) simp
  moreover have "dbl 1 = 1" using dbl_of_int [of 1] by simp
  moreover have "dsub 2 tol \<noteq> 1" unfolding dsub_def by code_simp
  ultimately show ?thesis by (simp add: dsub_def)
qed

lemma ddiv_idem [simp]: "dbl (ddiv a b) = ddiv a b"
  by (simp add: ddiv_def)

lemma dsub_0_right: "dsub t 0 = dbl t"
  by (simp add: dsub_def)

lemma ddiv_nonpos: "0 \<le> a \<Longrightarrow> d < 0 \<Longrightarrow> ddiv a d \<le> 0"
  using dbl_mono [of "a / d" 0] by (simp add: ddiv_def divide_nonneg_neg)

lemma ddiv_nonpos': "a \<le> 0 \<Longrightarrow> 0 < d \<Longrightarrow> ddiv a d \<le> 0"
  using dbl_mono [of "a / d" 0] by (simp add: ddiv_def divide_nonpos_pos)

lemma of_long_ge_1: "1 \<le> i \<Longrightarrow> 1 \<le> of_long i"
  using of_long_mono [of 1 i] of_long_exact [of 1] by simp

lemma of_long_le_m1: "i \<le> - 1 \<Longrightarrow> of_long i \<le> - 1"
  using of_long_mono [of i "- 1"] of_long_exact [of "- 1"] by simp

lemma of_long_nonneg: "0 \<le> i \<Longrightarrow> 0 \<le> of_long i"
  using of_long_mono [of 0 i] by simp

lemma of_long_nonpos: "i \<le> 0 \<Longrightarrow> of_long i \<le> 0"
  using of_long_mono [of i 0] by simp

lemma ddiv_ge_tol:
  assumes "1 \<le> a" and "0 < d" and "d \<le> 10 ^ 9"
  shows "tol \<le> ddiv a d"
proof -
  have "1 / 10 ^ 9 \<le> a / d"
    using assms by (simp add: field_simps)
  then show ?thesis
    unfolding tol_def ddiv_def by (rule dbl_mono)
qed

lemma ddiv_ge_tol_neg:
  assumes "a \<le> - 1" and "d < 0" and "- (10 ^ 9) \<le> d"
  shows "tol \<le> ddiv a d"
  using ddiv_ge_tol [of "- a" "- d"] assms by (simp add: ddiv_def)



subsection \<open>\<^verbatim>\<open>RemapCursor\<close>\<close>

text \<open>
  Claim C2. With source rectangle (0,0,1920,1080), destination rectangle
  (1920,0,2560,1440), exit edge Right and hit coordinate 540, \<^verbatim>\<open>RemapCursor\<close> succeeds and
  returns exactly the point (1921, 720).
\<close>

theorem C2_remap_example:
  "RemapCursor \<lparr>rleft = 0, rtop = 0, rright = 1920, rbottom = 1080\<rparr>
               \<lparr>rleft = 1920, rtop = 0, rright = 2560, rbottom = 1440\<rparr> Right 540
   = Some \<lparr>pt_x = 1921, pt_y = 720\<rparr>"
  by code_simp

text \<open>
  Claim C7. \<^verbatim>\<open>RemapCursor\<close> fails, producing no output point, whenever the overlap of
  the two rectangles along the axis selected by the edge (vertical for Left and Right,
  horizontal for Top and Bottom) is zero or negative, or either rectangle has
  non-positive extent along that axis, or the edge is None.
\<close>

theorem C7_remap_fails:
  "((edge = Left \<or> edge = Right) \<and>
      (min (rbottom src) (rbottom dst) - max (rtop src) (rtop dst) \<le> 0 \<or>
       rbottom src - rtop src \<le> 0 \<or> rbottom dst - rtop dst \<le> 0)
      \<longrightarrow> RemapCursor src dst edge hitCoord = None) \<and>
   ((edge = Top \<or> edge = Bottom) \<and>
      (min (rright src) (rright dst) - max (rleft src) (rleft dst) \<le> 0 \<or>
       rright src - rleft src \<le> 0 \<or> rright dst - rleft dst \<le> 0)
      \<longrightarrow> RemapCursor src dst edge hitCoord = None) \<and>
   (edge = Edge_None \<longrightarrow> RemapCursor src dst edge hitCoord = None)"
  by (auto simp: RemapCursor_def remap_extents_def Let_def)

text \<open>Witness for C7: two displays stacked with a gap, asked for a crossing to the
  right; and the edge None between two properly adjacent displays.\<close>

theorem C7_remap_fails_witness:
  "RemapCursor \<lparr>rleft = 0, rtop = 0, rright = 100, rbottom = 100\<rparr>
               \<lparr>rleft = 0, rtop = 150, rright = 100, rbottom = 250\<rparr> Right 50 = None \<and>
   RemapCursor \<lparr>rleft = 0, rtop = 0, rright = 100, rbottom = 100\<rparr>
               \<lparr>rleft = 100, rtop = 0, rright = 200, rbottom = 100\<rparr> Edge_None 50 = None"
  using C7_remap_fails [of Right "\<lparr>rleft = 0, rtop = 0, rright = 100, rbottom = 100\<rparr>"
                          "\<lparr>rleft = 0, rtop = 150, rright = 100, rbottom = 250\<rparr>" 50]
        C7_remap_fails [of Edge_None "\<lparr>rleft = 0, rtop = 0, rright = 100, rbottom = 100\<rparr>"
                          "\<lparr>rleft = 100, rtop = 0, rright = 200, rbottom = 100\<rparr>" 50]
  by simp

text \<open>
  Claim C6, as stated: on every input on which \<^verbatim>\<open>RemapCursor\<close> succeeds the returned point
  lies strictly inside the destination rectangle. It fails for a destination one pixel
  wide entered through its left edge: the call succeeds and the point, one pixel to the
  right of \<open>dst.left\<close>, has \<open>x = dst.right\<close>, outside the half-open rectangle.
\<close>

theorem C6_counterexample:
  "RemapCursor \<lparr>rleft = 0, rtop = 0, rright = 100, rbottom = 100\<rparr>
               \<lparr>rleft = 100, rtop = 0, rright = 101, rbottom = 100\<rparr> Right 50
     = Some \<lparr>pt_x = 101, pt_y = 50\<rparr> \<and>
   \<not> rect_contains \<lparr>rleft = 100, rtop = 0, rright = 101, rbottom = 100\<rparr> \<lparr>pt_x = 101, pt_y = 50\<rparr> \<and>
   \<not> strictly_inside \<lparr>rleft = 100, rtop = 0, rright = 101, rbottom = 100\<rparr> \<lparr>pt_x = 101, pt_y = 50\<rparr>"
  by code_simp

text \<open>
  Claim C6, amended: on every input on which \<^verbatim>\<open>RemapCursor\<close> succeeds and whose
  destination rectangle is at least three pixels wide and three pixels high, the returned
  point lies strictly inside the destination rectangle (contained, and on none of its
  boundary pixels): the along-edge coordinate is within \<open>[dstStart + 1, dstEnd - 2]\<close> and
  the crossed-axis coordinate is one pixel inside the entered edge.
\<close>

theorem C6_remap_strictly_inside:
  assumes "RemapCursor src dst edge hitCoord = Some p"
    and "3 \<le> rright dst - rleft dst" and "3 \<le> rbottom dst - rtop dst"
  shows "strictly_inside dst p \<and> rect_contains dst p \<and>
         (edge = Right \<longrightarrow> pt_x p = rleft dst + 1 \<and> rtop dst + 1 \<le> pt_y p \<and> pt_y p \<le> rbottom dst - 2) \<and>
         (edge = Left \<longrightarrow> pt_x p = rright dst - 2 \<and> rtop dst + 1 \<le> pt_y p \<and> pt_y p \<le> rbottom dst - 2) \<and>
         (edge = Bottom \<longrightarrow> pt_y p = rtop dst + 1 \<and> rleft dst + 1 \<le> pt_x p \<and> pt_x p \<le> rright dst - 2) \<and>
         (edge = Top \<longrightarrow> pt_y p = rbottom dst - 2 \<and> rleft dst + 1 \<le> pt_x p \<and> pt_x p \<le> rright dst - 2)"
proof (cases edge)
  case Edge_None
  with assms(1) show ?thesis
    by (simp add: RemapCursor_def Let_def split: if_splits)
next
  case Left
  with assms show ?thesis
    by (auto simp: RemapCursor_def remap_extents_def Let_def std_clamp_def
          strictly_inside_def rect_contains_def split: if_splits)
next
  case Right
  with assms show ?thesis
    by (auto simp: RemapCursor_def remap_extents_def Let_def std_clamp_def
          strictly_inside_def rect_contains_def split: if_splits)
next
  case Top
  with assms show ?thesis
    by (auto simp: RemapCursor_def remap_extents_def Let_def std_clamp_def
          strictly_inside_def rect_contains_def split: if_splits)
next
  case Bottom
  with assms show ?thesis
    by (auto simp: RemapCursor_def remap_extents_def Let_def std_clamp_def
          strictly_inside_def rect_contains_def split: if_splits)
qed

text \<open>Witness for the amended C6: the crossing of claim C2.\<close>

theorem C6_remap_strictly_inside_witness:
  "strictly_inside \<lparr>rleft = 1920, rtop = 0, rright = 2560, rbottom = 1440\<rparr> \<lparr>pt_x = 1921, pt_y = 720\<rparr> \<and>
   rect_contains \<lparr>rleft = 1920, rtop = 0, rright = 2560, rbottom = 1440\<rparr> \<lparr>pt_x = 1921, pt_y = 720\<rparr>"
proof -
  have r: "RemapCursor \<lparr>rleft = 0, rtop = 0, rright = 1920, rbottom = 1080\<rparr>
               \<lparr>rleft = 1920, rtop = 0, rright = 2560, rbottom = 1440\<rparr> Right 540
           = Some \<lparr>pt_x = 1921, pt_y = 720\<rparr>"
    by code_simp
  show ?thesis
    using C6_remap_strictly_inside [OF r] by simp
qed


subsection \<open>\<^verbatim>\<open>FindExitEdge\<close>\<close>

lemma block_bind:
  "(if d \<noteq> 0 then do { t \<leftarrow> fdiv a d; let y = g t; Some (h t y) } else Some best)
   = Some (if d \<noteq> 0 then (let t = ddiv a d; y = g t in h t y) else best)"
  by (simp add: fdiv_def Let_def)

lemma FindExitEdge_blocks:
  "FindExitEdge p0 p1 rect =
     Some (top_block (seg_dx p0 p1) (seg_dy p0 p1) p0 rect
            (bottom_block (seg_dx p0 p1) (seg_dy p0 p1) p0 rect
              (left_block (seg_dx p0 p1) (seg_dy p0 p1) p0 rect
                (right_block (seg_dx p0 p1) (seg_dy p0 p1) p0 rect no_hit))))"
  unfolding FindExitEdge_def
  apply (simp only: block_bind Option.bind.simps)
  apply (simp only: right_block_def [symmetric] left_block_def [symmetric]
     bottom_block_def [symmetric] top_block_def [symmetric])
  apply (simp only: Let_def seg_dx_def seg_dy_def no_hit_def)
  done

text \<open>
  Claim C9. \<^verbatim>\<open>FindExitEdge\<close> never evaluates a boundary test with a zero denominator
  (the model's division has no result there, and the function always has one), so it
  is total; for a zero-length segment it returns the no-hit sentinel, edge None.
\<close>

theorem C9_find_exit_edge_total:
  "(\<exists>h. FindExitEdge p0 p1 rect = Some h) \<and>
   FindExitEdge p p rect = Some \<lparr>hit_edge = Edge_None, hit_t = 2, hit_coord = 0\<rparr>"
  by (simp add: FindExitEdge_def fdiv_def dsub_def Let_def)

lemma tryEdge_reject:
  "t < tol \<Longrightarrow> \<not> outward e dx dy \<Longrightarrow> tryEdge dx dy best e t along = best"
  by (simp add: tryEdge_def)

lemma tryEdge_late:
  assumes "hit_t best = 0" and "tol \<le> t" and "dbl t = t"
  shows "tryEdge dx dy best e t along = best"
  using assms tol_pos by (simp add: tryEdge_def dsub_0_right)

lemma tryEdge_vertical_keeps:
  assumes "hit_t best = 0" and "e = Top \<or> e = Bottom" and "\<bar>dy\<bar> \<le> \<bar>dx\<bar>"
  shows "tryEdge dx dy best e t along = best"
  using assms tol_pos by (auto simp: tryEdge_def Let_def)

lemma tryEdge_vertical_tie:
  assumes "hit_t best = 0" and "e = Top \<or> e = Bottom" and "outward e dx dy"
  shows "tryEdge dx dy best e 0 along =
     (if \<bar>dy\<bar> > \<bar>dx\<bar> then \<lparr>hit_edge = e, hit_t = 0, hit_coord = along\<rparr> else best)"
  using assms tol_pos by (auto simp: tryEdge_def Let_def)

lemma exit_from_left_boundary:
  assumes x0: "pt_x p0 = rleft rect"
    and ytop: "rtop rect \<le> pt_y p0" and ybot: "pt_y p0 \<le> rbottom rect"
    and wf: "rleft rect \<le> rright rect"
    and neg: "seg_dx p0 p1 < 0"
    and prov: "\<bar>seg_dy p0 p1\<bar> \<le> \<bar>seg_dx p0 p1\<bar> \<or> \<bar>seg_dy p0 p1\<bar> \<le> 10 ^ 9"
  shows "FindExitEdge p0 p1 rect = Some
      (if pt_y p0 = rtop rect \<and> seg_dy p0 p1 < 0 \<and> \<bar>seg_dy p0 p1\<bar> > \<bar>seg_dx p0 p1\<bar>
       then \<lparr>hit_edge = Top, hit_t = 0, hit_coord = of_long (pt_x p0)\<rparr>
       else if pt_y p0 = rbottom rect \<and> seg_dy p0 p1 > 0 \<and> \<bar>seg_dy p0 p1\<bar> > \<bar>seg_dx p0 p1\<bar>
       then \<lparr>hit_edge = Bottom, hit_t = 0, hit_coord = of_long (pt_x p0)\<rparr>
       else \<lparr>hit_edge = Left, hit_t = 0, hit_coord = of_long (pt_y p0)\<rparr>)"
proof -
  define dx where "dx = seg_dx p0 p1"
  define dy where "dy = seg_dy p0 p1"
  define bL where "bL = \<lparr>hit_edge = Left, hit_t = 0, hit_coord = of_long (pt_y p0)\<rparr>"
  define tB where "tB = ddiv (of_long (rbottom rect - pt_y p0)) dy"
  define tT where "tT = ddiv (of_long (rtop rect - pt_y p0)) dy"
  have dxneg: "dx < 0" using neg by (simp add: dx_def)
  have prov': "\<bar>dy\<bar> \<le> \<bar>dx\<bar> \<or> \<bar>dy\<bar> \<le> 10 ^ 9" using prov by (simp add: dx_def dy_def)
  have yin: "of_long (rtop rect) \<le> of_long (pt_y p0)" "of_long (pt_y p0) \<le> of_long (rbottom rect)"
    using ytop ybot by (simp_all add: of_long_mono)
  have xin: "of_long (rleft rect) \<le> of_long (pt_x p0)" "of_long (pt_x p0) \<le> of_long (rright rect)"
    using x0 wf by (simp_all add: of_long_mono)
  have "0 \<le> of_long (rright rect - pt_x p0)" using wf x0 by (intro of_long_nonneg) simp
  then have tR0: "ddiv (of_long (rright rect - pt_x p0)) dx \<le> 0"
    using dxneg by (rule ddiv_nonpos)
  have "tryEdge dx dy no_hit Right (ddiv (of_long (rright rect - pt_x p0)) dx) along = no_hit" for along
    using tR0 dxneg tol_pos by (intro tryEdge_reject) (simp_all add: outward_def)
  then have b1: "right_block dx dy p0 rect no_hit = no_hit"
    unfolding right_block_def Let_def by simp
  have "tryEdge dx dy no_hit Left 0 (of_long (pt_y p0)) = bL"
    using dxneg dsub_2_tol tol_pos by (simp add: tryEdge_def outward_def no_hit_def bL_def)
  then have b2: "left_block dx dy p0 rect no_hit = bL"
    unfolding left_block_def Let_def using dxneg x0 yin by simp
  have late: "tryEdge dx dy b e t along = b"
    if "hit_t b = 0" "e = Top \<or> e = Bottom" "0 < t" "dbl t = t" "\<bar>dy\<bar> \<le> 10 ^ 9 \<Longrightarrow> tol \<le> t"
    for b e t along
  proof (cases "\<bar>dy\<bar> \<le> \<bar>dx\<bar>")
    case True
    with that(1,2) show ?thesis by (rule tryEdge_vertical_keeps)
  next
    case False
    then have "tol \<le> t" using prov' that(5) by blast
    with that(1) show ?thesis using that(4) by (rule tryEdge_late)
  qed
  define b3 where "b3 = bottom_block dx dy p0 rect bL"
  have b3_eq: "b3 = (if pt_y p0 = rbottom rect \<and> dy > 0 \<and> \<bar>dy\<bar> > \<bar>dx\<bar>
       then \<lparr>hit_edge = Bottom, hit_t = 0, hit_coord = of_long (pt_x p0)\<rparr> else bL)"
  proof (cases "dy = 0")
    case True
    then show ?thesis by (simp add: b3_def bottom_block_def)
  next
    case dynz: False
    show ?thesis
    proof (cases "pt_y p0 = rbottom rect")
      case True
      have "tryEdge dx dy bL Bottom 0 (of_long (pt_x p0)) =
          (if dy > 0 \<and> \<bar>dy\<bar> > \<bar>dx\<bar>
           then \<lparr>hit_edge = Bottom, hit_t = 0, hit_coord = of_long (pt_x p0)\<rparr> else bL)"
      proof (cases "dy > 0")
        case True
        then show ?thesis
          using tryEdge_vertical_tie [of bL Bottom dx dy "of_long (pt_x p0)"]
          by (simp add: bL_def outward_def)
      next
        case False
        then show ?thesis
          using tol_pos by (simp add: tryEdge_reject outward_def)
      qed
      then show ?thesis
        using True dynz xin by (simp add: b3_def bottom_block_def Let_def)
    next
      case False
      then have pos: "1 \<le> of_long (rbottom rect - pt_y p0)"
        using ybot by (intro of_long_ge_1) simp
      have "tryEdge dx dy bL Bottom tB along = bL" for along
      proof (cases "dy > 0")
        case True
        have "0 < tB" unfolding tB_def ddiv_def using pos True by (intro dbl_pos) simp
        moreover have "tol \<le> tB" if "\<bar>dy\<bar> \<le> 10 ^ 9"
          unfolding tB_def using pos True that by (intro ddiv_ge_tol) simp_all
        ultimately show ?thesis
          by (intro late) (simp_all add: bL_def tB_def)
      next
        case False
        then have "dy < 0" using dynz by simp
        then have "tB \<le> 0" unfolding tB_def using pos by (intro ddiv_nonpos) simp_all
        then show ?thesis
          using \<open>dy < 0\<close> tol_pos by (intro tryEdge_reject) (simp_all add: outward_def)
      qed
      then show ?thesis
        using False unfolding b3_def bottom_block_def Let_def tB_def by simp
    qed
  qed
  define b4 where "b4 = top_block dx dy p0 rect b3"
  have b3t: "hit_t b3 = 0" by (simp add: b3_eq bL_def)
  have b4_eq: "b4 = (if pt_y p0 = rtop rect \<and> dy < 0 \<and> \<bar>dy\<bar> > \<bar>dx\<bar>
       then \<lparr>hit_edge = Top, hit_t = 0, hit_coord = of_long (pt_x p0)\<rparr> else b3)"
  proof (cases "dy = 0")
    case True
    then show ?thesis by (simp add: b4_def top_block_def)
  next
    case dynz: False
    show ?thesis
    proof (cases "pt_y p0 = rtop rect")
      case True
      have "tryEdge dx dy b3 Top 0 (of_long (pt_x p0)) =
          (if dy < 0 \<and> \<bar>dy\<bar> > \<bar>dx\<bar>
           then \<lparr>hit_edge = Top, hit_t = 0, hit_coord = of_long (pt_x p0)\<rparr> else b3)"
      proof (cases "dy < 0")
        case True
        then show ?thesis
          using tryEdge_vertical_tie [of b3 Top dx dy "of_long (pt_x p0)"] b3t
          by (simp add: outward_def)
      next
        case False
        then show ?thesis
          using tol_pos by (simp add: tryEdge_reject outward_def)
      qed
      then show ?thesis
        using True dynz xin by (simp add: b4_def top_block_def Let_def)
    next
      case False
      then have negn: "of_long (rtop rect - pt_y p0) \<le> - 1"
        using ytop by (intro of_long_le_m1) simp
      have "tryEdge dx dy b3 Top tT along = b3" for along
      proof (cases "dy < 0")
        case True
        have "0 < tT" unfolding tT_def ddiv_def using negn True
          by (intro dbl_pos) (simp add: zero_less_divide_iff)
        moreover have "tol \<le> tT" if "\<bar>dy\<bar> \<le> 10 ^ 9"
          unfolding tT_def using negn True that by (intro ddiv_ge_tol_neg) simp_all
        ultimately show ?thesis
          using b3t by (intro late) (simp_all add: tT_def)
      next
        case False
        then have "dy > 0" using dynz by simp
        then have "tT \<le> 0" unfolding tT_def using negn by (intro ddiv_nonpos') simp_all
        then show ?thesis
          using \<open>dy > 0\<close> tol_pos by (intro tryEdge_reject) (simp_all add: outward_def)
      qed
      then show ?thesis
        using False unfolding b4_def top_block_def Let_def tT_def by simp
    qed
  qed
  have "FindExitEdge p0 p1 rect = Some b4"
    unfolding FindExitEdge_blocks dx_def [symmetric] dy_def [symmetric] b1 b2 b4_def b3_def ..
  then show ?thesis
    unfolding b4_eq b3_eq bL_def dx_def dy_def
    using ytop ybot by auto
qed

lemma tryEdge_not_left:
  "hit_edge best \<noteq> Left \<Longrightarrow> e \<noteq> Left \<Longrightarrow> hit_edge (tryEdge dx dy best e t along) \<noteq> Left"
  by (simp add: tryEdge_def Let_def)

lemma right_block_not_left:
  "hit_edge best \<noteq> Left \<Longrightarrow> hit_edge (right_block dx dy p0 rect best) \<noteq> Left"
  unfolding right_block_def Let_def by (simp add: tryEdge_not_left)

lemma bottom_block_not_left:
  "hit_edge best \<noteq> Left \<Longrightarrow> hit_edge (bottom_block dx dy p0 rect best) \<noteq> Left"
  unfolding bottom_block_def Let_def by (simp add: tryEdge_not_left)

lemma top_block_not_left:
  "hit_edge best \<noteq> Left \<Longrightarrow> hit_edge (top_block dx dy p0 rect best) \<noteq> Left"
  unfolding top_block_def Let_def by (simp add: tryEdge_not_left)

lemma no_left_when_not_leftward:
  assumes x0: "pt_x p0 = rleft rect" and nn: "0 \<le> seg_dx p0 p1"
  shows "FindExitEdge p0 p1 rect = Some h \<Longrightarrow> hit_edge h \<noteq> Left"
proof -
  define dx where "dx = seg_dx p0 p1"
  define dy where "dy = seg_dy p0 p1"
  have dxnn: "0 \<le> dx" using nn by (simp add: dx_def)
  define b1 where "b1 = right_block dx dy p0 rect no_hit"
  have e1: "hit_edge b1 \<noteq> Left"
    unfolding b1_def by (rule right_block_not_left) (simp add: no_hit_def)
  have "tryEdge dx dy b1 Left 0 along = b1" for along
    using dxnn tol_pos by (intro tryEdge_reject) (simp_all add: outward_def)
  then have b2: "left_block dx dy p0 rect b1 = b1"
    unfolding left_block_def Let_def using x0 by simp
  define b3 where "b3 = bottom_block dx dy p0 rect b1"
  have e3: "hit_edge b3 \<noteq> Left"
    unfolding b3_def by (rule bottom_block_not_left) (rule e1)
  define b4 where "b4 = top_block dx dy p0 rect b3"
  have e4: "hit_edge b4 \<noteq> Left"
    unfolding b4_def by (rule top_block_not_left) (rule e3)
  have "FindExitEdge p0 p1 rect = Some b4"
    unfolding FindExitEdge_blocks dx_def [symmetric] dy_def [symmetric]
      b1_def [symmetric] b2 b3_def [symmetric] b4_def [symmetric] ..
  then show "FindExitEdge p0 p1 rect = Some h \<Longrightarrow> hit_edge h \<noteq> Left"
    using e4 by simp
qed

text \<open>On coordinates of at most 53 bits, and so on every 32-bit \<^verbatim>\<open>LONG\<close>, the two deltas
  are the exact differences.\<close>

lemma seg_dx_exact:
  assumes "\<bar>pt_x p0\<bar> \<le> 2 ^ 52" and "\<bar>pt_x p1\<bar> \<le> 2 ^ 52"
  shows "seg_dx p0 p1 = of_int (pt_x p1 - pt_x p0)"
proof -
  have "\<bar>pt_x p1 - pt_x p0\<bar> \<le> 2 ^ 53" using assms by simp
  then have "dbl (of_int (pt_x p1 - pt_x p0)) = of_int (pt_x p1 - pt_x p0)" by (rule dbl_of_int)
  moreover have "of_long (pt_x p0) = of_int (pt_x p0)" "of_long (pt_x p1) = of_int (pt_x p1)"
    using assms by (simp_all add: of_long_exact)
  ultimately show ?thesis by (simp add: seg_dx_def dsub_def)
qed

lemma seg_dy_exact:
  assumes "\<bar>pt_y p0\<bar> \<le> 2 ^ 52" and "\<bar>pt_y p1\<bar> \<le> 2 ^ 52"
  shows "seg_dy p0 p1 = of_int (pt_y p1 - pt_y p0)"
proof -
  have "\<bar>pt_y p1 - pt_y p0\<bar> \<le> 2 ^ 53" using assms by simp
  then have "dbl (of_int (pt_y p1 - pt_y p0)) = of_int (pt_y p1 - pt_y p0)" by (rule dbl_of_int)
  moreover have "of_long (pt_y p0) = of_int (pt_y p0)" "of_long (pt_y p1) = of_int (pt_y p1)"
    using assms by (simp_all add: of_long_exact)
  ultimately show ?thesis by (simp add: seg_dy_def dsub_def)
qed

text \<open>
  Claim C5, as stated: a segment that starts on the left boundary, within the vertical
  extent, and has \<open>dx < 0\<close> is reported as leaving through Left. It fails in two ways.
  At a corner: from the top-left corner (0,0) of the rectangle (0,0,100,100) to (-1,-2)
  the Left and the Top tests both cross at \<open>t = 0\<close>, both are outward, and \<open>|dy| > |dx|\<close>
  hands the tie to Top. And on a segment more than \<open>10^9\<close> pixels high: from
  \<open>(2^30, -2000000000)\<close> to \<open>(2^30 - 1, 2000000000)\<close>, with the rectangle
  \<open>(2^30, -2000000010, 2^30 + 100, -1999999999)\<close>, the Bottom test crosses at
  \<open>t = 2.5e-10\<close>, its \<open>x\<close> rounds to \<open>rect.left\<close>, it is within the tolerance of the Left
  crossing at \<open>t = 0\<close>, and \<open>|dy| > |dx|\<close> hands the tie to Bottom.
\<close>

theorem C5_counterexample:
  "pt_x \<lparr>pt_x = 0, pt_y = 0\<rparr> = rleft \<lparr>rleft = 0, rtop = 0, rright = 100, rbottom = 100\<rparr> \<and>
   rtop \<lparr>rleft = 0, rtop = 0, rright = 100, rbottom = 100\<rparr> \<le> pt_y \<lparr>pt_x = 0, pt_y = 0\<rparr> \<and>
   pt_y \<lparr>pt_x = 0, pt_y = 0\<rparr> < rbottom \<lparr>rleft = 0, rtop = 0, rright = 100, rbottom = 100\<rparr> \<and>
   seg_dx \<lparr>pt_x = 0, pt_y = 0\<rparr> \<lparr>pt_x = - 1, pt_y = - 2\<rparr> < 0 \<and>
   FindExitEdge \<lparr>pt_x = 0, pt_y = 0\<rparr> \<lparr>pt_x = - 1, pt_y = - 2\<rparr>
                \<lparr>rleft = 0, rtop = 0, rright = 100, rbottom = 100\<rparr>
     = Some \<lparr>hit_edge = Top, hit_t = 0, hit_coord = 0\<rparr> \<and>
   rtop \<lparr>rleft = 1073741824, rtop = - 2000000010, rright = 1073741924, rbottom = - 1999999999\<rparr>
     < pt_y \<lparr>pt_x = 1073741824, pt_y = - 2000000000\<rparr> \<and>
   pt_y \<lparr>pt_x = 1073741824, pt_y = - 2000000000\<rparr>
     < rbottom \<lparr>rleft = 1073741824, rtop = - 2000000010, rright = 1073741924, rbottom = - 1999999999\<rparr> \<and>
   seg_dx \<lparr>pt_x = 1073741824, pt_y = - 2000000000\<rparr> \<lparr>pt_x = 1073741823, pt_y = 2000000000\<rparr> = - 1 \<and>
   seg_dy \<lparr>pt_x = 1073741824, pt_y = - 2000000000\<rparr> \<lparr>pt_x = 1073741823, pt_y = 2000000000\<rparr>
     = 4000000000 \<and>
   FindExitEdge \<lparr>pt_x = 1073741824, pt_y = - 2000000000\<rparr> \<lparr>pt_x = 1073741823, pt_y = 2000000000\<rparr>
                \<lparr>rleft = 1073741824, rtop = - 2000000010, rright = 1073741924, rbottom = - 1999999999\<rparr>
     = Some \<lparr>hit_edge = Bottom, hit_t = 4835703278458517 / 2 ^ 84, hit_coord = 1073741824\<rparr>"
  by code_simp

text \<open>
  Claim C5, amended: for every segment whose start point lies on the left boundary of a
  rectangle with \<open>left \<le> right\<close> (\<open>previous.x = rect.left\<close>, \<open>rect.top \<le> previous.y \<le>
  rect.bottom\<close>): if \<open>dx < 0\<close>, and \<open>|dy| \<le> |dx|\<close> or \<open>|dy| \<le> 10^9\<close>, \<^verbatim>\<open>FindExitEdge\<close> reports
  exit edge Left at \<open>t = 0\<close>, except that from the top-left corner moving up with
  \<open>|dy| > |dx|\<close> it reports Top, and from the bottom-left corner moving down with
  \<open>|dy| > |dx|\<close> it reports Bottom; if \<open>dx \<ge> 0\<close> it never reports an exit through Left.
  Here \<open>dx\<close> and \<open>dy\<close> are the deltas that \<^verbatim>\<open>FindExitEdge\<close> computes, which on 32-bit
  coordinates are the exact differences (lemmas \<open>seg_dx_exact\<close>, \<open>seg_dy_exact\<close>).
\<close>

theorem C5_left_boundary_outward_only:
  assumes "pt_x p0 = rleft rect"
    and "rtop rect \<le> pt_y p0" and "pt_y p0 \<le> rbottom rect"
    and "rleft rect \<le> rright rect"
  shows "(seg_dx p0 p1 < 0 \<and>
            (\<bar>seg_dy p0 p1\<bar> \<le> \<bar>seg_dx p0 p1\<bar> \<or> \<bar>seg_dy p0 p1\<bar> \<le> 10 ^ 9) \<longrightarrow>
            FindExitEdge p0 p1 rect = Some
              (if pt_y p0 = rtop rect \<and> seg_dy p0 p1 < 0 \<and> \<bar>seg_dy p0 p1\<bar> > \<bar>seg_dx p0 p1\<bar>
               then \<lparr>hit_edge = Top, hit_t = 0, hit_coord = of_long (pt_x p0)\<rparr>
               else if pt_y p0 = rbottom rect \<and> seg_dy p0 p1 > 0 \<and>
                  \<bar>seg_dy p0 p1\<bar> > \<bar>seg_dx p0 p1\<bar>
               then \<lparr>hit_edge = Bottom, hit_t = 0, hit_coord = of_long (pt_x p0)\<rparr>
               else \<lparr>hit_edge = Left, hit_t = 0, hit_coord = of_long (pt_y p0)\<rparr>)) \<and>
         (0 \<le> seg_dx p0 p1 \<longrightarrow>
            (\<forall>h. FindExitEdge p0 p1 rect = Some h \<longrightarrow> hit_edge h \<noteq> Left))"
  using exit_from_left_boundary [OF assms] no_left_when_not_leftward [OF assms(1)]
  by blast

text \<open>Witness for the amended C5: from (0,50) on the left boundary of (0,0,100,100),
  moving left to (-5,50) exits through Left; moving right to (5,50) does not.\<close>

theorem C5_left_boundary_outward_only_witness:
  "FindExitEdge \<lparr>pt_x = 0, pt_y = 50\<rparr> \<lparr>pt_x = - 5, pt_y = 50\<rparr>
                \<lparr>rleft = 0, rtop = 0, rright = 100, rbottom = 100\<rparr>
     = Some \<lparr>hit_edge = Left, hit_t = 0, hit_coord = 50\<rparr> \<and>
   hit_edge (the (FindExitEdge \<lparr>pt_x = 0, pt_y = 50\<rparr> \<lparr>pt_x = 5, pt_y = 50\<rparr>
                \<lparr>rleft = 0, rtop = 0, rright = 100, rbottom = 100\<rparr>)) \<noteq> Left"
proof -
  let ?p0 = "\<lparr>pt_x = 0, pt_y = 50\<rparr>" and ?r = "\<lparr>rleft = 0, rtop = 0, rright = 100, rbottom = 100\<rparr>"
  have dl: "seg_dx ?p0 \<lparr>pt_x = - 5, pt_y = 50\<rparr> = - 5" "seg_dy ?p0 \<lparr>pt_x = - 5, pt_y = 50\<rparr> = 0"
    by (simp_all add: seg_dx_exact seg_dy_exact)
  have dr: "seg_dx ?p0 \<lparr>pt_x = 5, pt_y = 50\<rparr> = 5"
    by (simp add: seg_dx_exact)
  have c: "of_long 50 = 50"
    by (simp add: of_long_exact)
  obtain h where h: "FindExitEdge ?p0 \<lparr>pt_x = 5, pt_y = 50\<rparr> ?r = Some h"
    using FindExitEdge_blocks by blast
  have "hit_edge h \<noteq> Left"
    using C5_left_boundary_outward_only [of ?p0 ?r "\<lparr>pt_x = 5, pt_y = 50\<rparr>"] h dr
    by simp
  then show ?thesis
    using C5_left_boundary_outward_only [of ?p0 ?r "\<lparr>pt_x = - 5, pt_y = 50\<rparr>"] h dl c
    by simp
qed

lemma right_block_cand:
  "right_block dx dy p0 rect b =
     foldl (try_cand dx dy) b
       (let tR = ddiv (of_long (rright rect - pt_x p0)) dx;
          yR = dadd (of_long (pt_y p0)) (dmul tR dy) in
       (if dx \<noteq> 0 \<and> yR \<ge> of_long (rtop rect) \<and> yR \<le> of_long (rbottom rect)
          then [(Right, tR, yR)] else []))"
  by (simp add: right_block_def try_cand_def Let_def)

lemma left_block_cand:
  "left_block dx dy p0 rect b =
     foldl (try_cand dx dy) b
       (let tL = ddiv (of_long (rleft rect - pt_x p0)) dx;
          yL = dadd (of_long (pt_y p0)) (dmul tL dy) in
       (if dx \<noteq> 0 \<and> yL \<ge> of_long (rtop rect) \<and> yL \<le> of_long (rbottom rect)
          then [(Left, tL, yL)] else []))"
  by (simp add: left_block_def try_cand_def Let_def)

lemma bottom_block_cand:
  "bottom_block dx dy p0 rect b =
     foldl (try_cand dx dy) b
       (let tB = ddiv (of_long (rbottom rect - pt_y p0)) dy;
          xB = dadd (of_long (pt_x p0)) (dmul tB dx) in
       (if dy \<noteq> 0 \<and> xB \<ge> of_long (rleft rect) \<and> xB \<le> of_long (rright rect)
          then [(Bottom, tB, xB)] else []))"
  by (simp add: bottom_block_def try_cand_def Let_def)

lemma top_block_cand:
  "top_block dx dy p0 rect b =
     foldl (try_cand dx dy) b
       (let tT = ddiv (of_long (rtop rect - pt_y p0)) dy;
          xT = dadd (of_long (pt_x p0)) (dmul tT dx) in
       (if dy \<noteq> 0 \<and> xT \<ge> of_long (rleft rect) \<and> xT \<le> of_long (rright rect)
          then [(Top, tT, xT)] else []))"
  by (simp add: top_block_def try_cand_def Let_def)

lemma FindExitEdge_fold:
  "FindExitEdge p0 p1 rect =
     Some (foldl (try_cand (seg_dx p0 p1) (seg_dy p0 p1)) no_hit (edge_candidates p0 p1 rect))"
  unfolding FindExitEdge_blocks right_block_cand left_block_cand bottom_block_cand top_block_cand
    edge_candidates_def Let_def foldl_append ..

lemma hv_ordered_candidates: "hv_ordered (edge_candidates p0 p1 rect)"
  by (simp add: edge_candidates_def Let_def vert_edge_def horiz_edge_def)

lemma candidates_representable:
  "c \<in> set (edge_candidates p0 p1 rect) \<Longrightarrow> dbl (cand_t c) = cand_t c"
  by (auto simp: edge_candidates_def Let_def cand_t_def split: if_splits)

lemma try_cand_step:
  "try_cand dx dy b c =
     (if \<not> accepted dx dy c then b
      else if cand_t c < dsub (hit_t b) tol then cand_hit c
      else if \<bar>dsub (cand_t c) (hit_t b)\<bar> < tol \<and> preferred dx dy (fst c) then cand_hit c
      else b)"
  by (auto simp: try_cand_def tryEdge_def accepted_def cand_t_def cand_hit_def preferred_def Let_def)

lemma cand_hit_simps [simp]:
  "hit_t (cand_hit c) = cand_t c" "hit_edge (cand_hit c) = fst c"
  by (simp_all add: cand_hit_def cand_t_def)

lemma horiz_not_vert: "horiz_edge e \<Longrightarrow> \<not> vert_edge e"
  by (auto simp: horiz_edge_def vert_edge_def)

lemma preferred_horiz: "\<bar>dy\<bar> \<le> \<bar>dx\<bar> \<Longrightarrow> preferred dx dy e \<Longrightarrow> horiz_edge e"
  by (auto simp: preferred_def horiz_edge_def split: if_splits)

lemma preferred_vert: "\<bar>dx\<bar> < \<bar>dy\<bar> \<Longrightarrow> vert_edge e \<Longrightarrow> preferred dx dy e"
  by (auto simp: preferred_def vert_edge_def)

lemma all_vert_hv_ordered: "list_all (\<lambda>d. vert_edge (fst d)) cs \<Longrightarrow> hv_ordered cs"
  by (induction cs) auto

lemma hv_ordered_tail: "hv_ordered (c # cs) \<Longrightarrow> hv_ordered cs"
  by (auto simp: all_vert_hv_ordered split: if_splits)

text \<open>The comparisons of \<^verbatim>\<open>tryEdge\<close> against a representable \<open>m\<close>.\<close>

lemma dsub_tol_le: "dbl a = a \<Longrightarrow> dsub a tol \<le> a"
  using dbl_mono [of "a - tol" a] tol_pos by (simp add: dsub_def)

lemma not_earlier_self: "dbl m = m \<Longrightarrow> \<not> m < dsub m tol"
  using dsub_tol_le [of m] by simp

lemma later_gap:
  assumes "m < dsub t tol" and "dbl m = m"
  shows "m + tol < t"
proof (rule ccontr)
  assume "\<not> m + tol < t"
  then have "t - tol \<le> m" by simp
  then have "dbl (t - tol) \<le> dbl m" by (rule dbl_mono)
  with assms show False by (simp add: dsub_def)
qed

lemma later_not_tied:
  assumes "m < dsub t tol" and "dbl m = m"
  shows "\<not> \<bar>dsub t m\<bar> < tol"
proof -
  have "tol \<le> t - m" using later_gap [OF assms] by simp
  then have "dbl tol \<le> dbl (t - m)" by (rule dbl_mono)
  then show ?thesis by (simp add: dsub_def)
qed

lemma later_not_earlier:
  assumes "m < dsub t tol" and "dbl m = m"
  shows "\<not> t < dsub m tol"
  using later_gap [OF assms] dsub_tol_le [OF assms(2)] tol_pos by simp

lemma tied_self: "\<bar>dsub m m\<bar> < tol"
  using tol_pos by simp

lemma first_is_earlier: "t \<le> 1 \<Longrightarrow> t < dsub 2 tol"
  using dsub_2_tol by simp


text \<open>The running best stays at \<open>m\<close>, or later than \<open>m\<close> by more than the tolerance.\<close>

lemma step_keeps_min:
  assumes "dbl m = m" and "hit_t b = m"
    and "accepted dx dy c \<longrightarrow> cand_t c = m \<or> m < dsub (cand_t c) tol"
  shows "hit_t (try_cand dx dy b c) = m"
  using assms later_not_earlier [of m "cand_t c"] later_not_tied [of m "cand_t c"]
  by (auto simp: try_cand_step)

lemma step_takes_min:
  assumes "dbl m = m" and "hit_t b = m \<or> m < dsub (hit_t b) tol"
    and "accepted dx dy c" and "cand_t c = m"
  shows "hit_t (try_cand dx dy b c) = m"
  using assms by (auto simp: try_cand_step)

lemma fold_t_invariant:
  assumes "\<forall>c\<in>set cs. accepted dx dy c \<longrightarrow> cand_t c = m \<or> m < dsub (cand_t c) tol"
    and "hit_t b = m \<or> m < dsub (hit_t b) tol"
  shows "hit_t (foldl (try_cand dx dy) b cs) = m \<or> m < dsub (hit_t (foldl (try_cand dx dy) b cs)) tol"
  using assms
proof (induction cs arbitrary: b)
  case Nil
  then show ?case by simp
next
  case (Cons c cs)
  have "hit_t (try_cand dx dy b c) = m \<or> m < dsub (hit_t (try_cand dx dy b c)) tol"
    using Cons.prems by (auto simp: try_cand_step)
  with Cons show ?case by simp
qed

lemma fold_t_stays_min:
  assumes "dbl m = m"
    and "\<forall>c\<in>set cs. accepted dx dy c \<longrightarrow> cand_t c = m \<or> m < dsub (cand_t c) tol"
    and "hit_t b = m"
  shows "hit_t (foldl (try_cand dx dy) b cs) = m"
  using assms
proof (induction cs arbitrary: b)
  case Nil
  then show ?case by simp
next
  case (Cons c cs)
  have "hit_t (try_cand dx dy b c) = m"
    using Cons.prems by (intro step_keeps_min) simp_all
  with Cons show ?case by simp
qed

lemma fold_t_reaches_min:
  assumes "dbl m = m"
    and "\<forall>c\<in>set cs. accepted dx dy c \<longrightarrow> cand_t c = m \<or> m < dsub (cand_t c) tol"
    and "hit_t b = m \<or> m < dsub (hit_t b) tol"
    and "\<exists>c\<in>set cs. accepted dx dy c \<and> cand_t c = m"
  shows "hit_t (foldl (try_cand dx dy) b cs) = m"
  using assms
proof (induction cs arbitrary: b)
  case Nil
  then show ?case by simp
next
  case (Cons c cs)
  show ?case
  proof (cases "accepted dx dy c \<and> cand_t c = m")
    case True
    then have "hit_t (try_cand dx dy b c) = m"
      using Cons.prems(1,3) by (intro step_takes_min) simp_all
    then show ?thesis
      using fold_t_stays_min [of m cs dx dy "try_cand dx dy b c"] Cons.prems(1,2) by simp
  next
    case False
    then have ex: "\<exists>c\<in>set cs. accepted dx dy c \<and> cand_t c = m"
      using Cons.prems(4) by auto
    have "hit_t (try_cand dx dy b c) = m \<or> m < dsub (hit_t (try_cand dx dy b c)) tol"
      using Cons.prems(2,3) by (auto simp: try_cand_step)
    then show ?thesis
      using Cons.IH [of "try_cand dx dy b c"] Cons.prems(1,2) ex by simp
  qed
qed

text \<open>Exact ties at the minimum: which kind of edge survives.\<close>

lemma fold_stays_horizontal:
  assumes "\<bar>dy\<bar> \<le> \<bar>dx\<bar>" and "dbl m = m"
    and "\<forall>c\<in>set cs. accepted dx dy c \<longrightarrow> cand_t c = m \<or> m < dsub (cand_t c) tol"
    and "hit_t b = m" and "horiz_edge (hit_edge b)"
  shows "horiz_edge (hit_edge (foldl (try_cand dx dy) b cs))"
  using assms
proof (induction cs arbitrary: b)
  case Nil
  then show ?case by simp
next
  case (Cons c cs)
  have t: "hit_t (try_cand dx dy b c) = m"
    using Cons.prems by (intro step_keeps_min) simp_all
  have "horiz_edge (hit_edge (try_cand dx dy b c))"
    using Cons.prems preferred_horiz [of dy dx "fst c"] not_earlier_self [of m]
      later_not_earlier [of m "cand_t c"]
    by (auto simp: try_cand_step)
  with t Cons show ?case by simp
qed

lemma fold_becomes_horizontal:
  assumes "\<bar>dy\<bar> \<le> \<bar>dx\<bar>" and "dbl m = m"
    and "\<forall>c\<in>set cs. accepted dx dy c \<longrightarrow> cand_t c = m \<or> m < dsub (cand_t c) tol"
    and "m < dsub (hit_t b) tol" and "hv_ordered cs"
    and "\<exists>c\<in>set cs. accepted dx dy c \<and> cand_t c = m \<and> horiz_edge (fst c)"
  shows "horiz_edge (hit_edge (foldl (try_cand dx dy) b cs))"
  using assms
proof (induction cs arbitrary: b)
  case Nil
  then show ?case by simp
next
  case (Cons c cs)
  obtain d where d: "d \<in> set (c # cs)" "accepted dx dy d" "cand_t d = m" "horiz_edge (fst d)"
    using Cons.prems(6) by blast
  show ?case
  proof (cases "accepted dx dy c \<and> cand_t c = m")
    case True
    then have step: "try_cand dx dy b c = cand_hit c"
      using Cons.prems(4) by (simp add: try_cand_step)
    have "horiz_edge (fst c)"
    proof (rule ccontr)
      assume nh: "\<not> horiz_edge (fst c)"
      then have "d \<in> set cs" using d by auto
      moreover have "list_all (\<lambda>d. vert_edge (fst d)) cs"
        using Cons.prems(5) nh by (simp split: if_splits)
      ultimately have "vert_edge (fst d)" by (simp add: list_all_iff)
      then show False using d(4) horiz_not_vert by blast
    qed
    then show ?thesis
      using fold_stays_horizontal [of dy dx m cs "cand_hit c"] Cons.prems(1,2,3) True step by simp
  next
    case False
    then have din: "d \<in> set cs" using d by auto
    have far: "m < dsub (hit_t (try_cand dx dy b c)) tol"
      using Cons.prems(3,4) False by (auto simp: try_cand_step)
    have "\<not> list_all (\<lambda>d. vert_edge (fst d)) cs"
      using din d(4) horiz_not_vert by (auto simp: list_all_iff)
    then have "hv_ordered cs"
      using Cons.prems(5) by (simp split: if_splits)
    then show ?thesis
      using Cons.IH [of "try_cand dx dy b c"] Cons.prems(1,2,3) far din d by auto
  qed
qed

lemma fold_stays_vertical:
  assumes "dbl m = m"
    and "\<forall>c\<in>set cs. accepted dx dy c \<longrightarrow> cand_t c = m \<or> m < dsub (cand_t c) tol"
    and "hit_t b = m" and "vert_edge (hit_edge b)"
    and "list_all (\<lambda>d. vert_edge (fst d)) cs"
  shows "vert_edge (hit_edge (foldl (try_cand dx dy) b cs))"
  using assms
proof (induction cs arbitrary: b)
  case Nil
  then show ?case by simp
next
  case (Cons c cs)
  have t: "hit_t (try_cand dx dy b c) = m"
    using Cons.prems by (intro step_keeps_min) simp_all
  have "vert_edge (hit_edge (try_cand dx dy b c))"
    using Cons.prems by (auto simp: try_cand_step)
  with t Cons show ?case by simp
qed

lemma fold_becomes_vertical:
  assumes "\<bar>dx\<bar> < \<bar>dy\<bar>" and "dbl m = m"
    and "\<forall>c\<in>set cs. accepted dx dy c \<longrightarrow> cand_t c = m \<or> m < dsub (cand_t c) tol"
    and "hit_t b = m \<or> m < dsub (hit_t b) tol" and "hv_ordered cs"
    and "\<exists>c\<in>set cs. accepted dx dy c \<and> cand_t c = m \<and> vert_edge (fst c)"
  shows "vert_edge (hit_edge (foldl (try_cand dx dy) b cs))"
  using assms
proof (induction cs arbitrary: b)
  case Nil
  then show ?case by simp
next
  case (Cons c cs)
  show ?case
  proof (cases "accepted dx dy c \<and> cand_t c = m \<and> vert_edge (fst c)")
    case True
    then have step: "try_cand dx dy b c = cand_hit c"
      using Cons.prems(4) preferred_vert [OF Cons.prems(1), of "fst c"] tol_pos
      by (auto simp: try_cand_step)
    have "list_all (\<lambda>d. vert_edge (fst d)) cs"
      using Cons.prems(5) True by simp
    then show ?thesis
      using fold_stays_vertical [of m cs dx dy "cand_hit c"] Cons.prems(2,3) True step by simp
  next
    case False
    then have ex: "\<exists>c\<in>set cs. accepted dx dy c \<and> cand_t c = m \<and> vert_edge (fst c)"
      using Cons.prems(6) by auto
    have inv: "hit_t (try_cand dx dy b c) = m \<or> m < dsub (hit_t (try_cand dx dy b c)) tol"
      using Cons.prems(3,4) by (auto simp: try_cand_step)
    have "hv_ordered cs"
      using Cons.prems(5) by (rule hv_ordered_tail)
    then show ?thesis
      using Cons.IH [of "try_cand dx dy b c"] Cons.prems(1,2,3) inv ex by simp
  qed
qed

text \<open>The result is the initial sentinel or one of the accepted candidates.\<close>

lemma fold_keeps_candidate:
  assumes "\<exists>c\<in>S. accepted dx dy c \<and> b = cand_hit c" and "set cs \<subseteq> S"
  shows "\<exists>c\<in>S. accepted dx dy c \<and> foldl (try_cand dx dy) b cs = cand_hit c"
  using assms
proof (induction cs arbitrary: b)
  case Nil
  then show ?case by simp
next
  case (Cons c cs)
  have "\<exists>d\<in>S. accepted dx dy d \<and> try_cand dx dy b c = cand_hit d"
    using Cons.prems by (auto simp: try_cand_step)
  with Cons show ?case by simp
qed

lemma fold_none_accepted:
  assumes "\<forall>c\<in>set cs. \<not> accepted dx dy c"
  shows "foldl (try_cand dx dy) b cs = b"
  using assms by (induction cs arbitrary: b) (simp_all add: try_cand_step)

lemma first_accepted_taken:
  assumes "hit_t b = 2" and "accepted dx dy c"
  shows "try_cand dx dy b c = cand_hit c"
  using assms first_is_earlier [of "cand_t c"] by (simp add: try_cand_step accepted_def)

lemma fold_picks_candidate:
  assumes "hit_t b = 2" and "\<exists>c\<in>set cs. accepted dx dy c"
  shows "\<exists>c\<in>set cs. accepted dx dy c \<and> foldl (try_cand dx dy) b cs = cand_hit c"
  using assms
proof (induction cs arbitrary: b)
  case Nil
  then show ?case by simp
next
  case (Cons c cs)
  show ?case
  proof (cases "accepted dx dy c")
    case True
    then have "try_cand dx dy b c = cand_hit c"
      using Cons.prems(1) by (intro first_accepted_taken)
    then show ?thesis
      using fold_keeps_candidate [of "set (c # cs)" dx dy "cand_hit c" cs] True by auto
  next
    case False
    then have "try_cand dx dy b c = b" by (simp add: try_cand_step)
    moreover have "\<exists>c\<in>set cs. accepted dx dy c" using False Cons.prems(2) by auto
    ultimately show ?thesis using Cons.IH [of b] Cons.prems(1) by auto
  qed
qed

text \<open>Candidates that are not accepted play no part.\<close>

lemma fold_filter_accepted:
  "foldl (try_cand dx dy) b cs = foldl (try_cand dx dy) b (filter (accepted dx dy) cs)"
  by (induction cs arbitrary: b) (simp_all add: try_cand_step)

lemma fold_two_accepted:
  assumes "filter (accepted dx dy) cs = [c, d]"
  shows "foldl (try_cand dx dy) no_hit cs =
     (if cand_t d < dsub (cand_t c) tol \<or>
         (\<bar>dsub (cand_t d) (cand_t c)\<bar> < tol \<and> preferred dx dy (fst d))
      then cand_hit d else cand_hit c)"
proof -
  have "c \<in> set (filter (accepted dx dy) cs)" "d \<in> set (filter (accepted dx dy) cs)"
    by (simp_all add: assms)
  then have acc: "accepted dx dy c" "accepted dx dy d"
    by simp_all
  have "try_cand dx dy no_hit c = cand_hit c"
    using acc(1) by (intro first_accepted_taken) (simp add: no_hit_def)
  then show ?thesis
    unfolding fold_filter_accepted [of dx dy no_hit cs] assms
    using acc(2) by (auto simp: try_cand_step)
qed

lemma fold_one_accepted:
  assumes "filter (accepted dx dy) cs = [c]"
  shows "foldl (try_cand dx dy) no_hit cs = cand_hit c"
proof -
  have "c \<in> set (filter (accepted dx dy) cs)"
    by (simp add: assms)
  then have "accepted dx dy c"
    by simp
  then have "try_cand dx dy no_hit c = cand_hit c"
    by (intro first_accepted_taken) (simp add: no_hit_def)
  then show ?thesis
    unfolding fold_filter_accepted [of dx dy no_hit cs] assms by simp
qed


text \<open>Above a positive representable value the next one is one unit in the last place
  away, so adding the tolerance to a \<open>t\<close> of at most 1 is never absorbed by the rounding.\<close>

lemma dbl_succ:
  assumes "dbl c = c" and "0 < c"
  shows "dbl (c + 2 powi (exponent c - 52)) = c + 2 powi (exponent c - 52)"
proof -
  define e where "e = exponent c"
  define u :: real where "u = 2 powi (e - 52)"
  define M where "M = round_even (c / u)"
  have nz: "c \<noteq> 0" and ac: "\<bar>c\<bar> = c" using assms(2) by simp_all
  have u: "0 < u" by (simp add: u_def)
  have c: "c = of_int M * u"
    using assms(1) nz by (simp add: dbl_def Let_def e_def u_def M_def)
  have "c < 2 ^ 53 * u"
    using exponent_bounds(2) [OF nz] pow2_53 [of e] by (simp add: ac e_def u_def)
  then have "of_int M * u < 2 ^ 53 * u" using c by simp
  then have "real_of_int M < real_of_int (2 ^ 53)" using u by simp
  then have Mlt: "M < 2 ^ 53" by (simp only: of_int_less_iff)
  have "0 < of_int M * u" using assms(2) c by simp
  then have "0 < real_of_int M" using u by (simp add: zero_less_mult_iff)
  then have Mpos: "0 < M" by simp
  have r: "c + u = of_int (M + 1) * u" using c by (simp add: algebra_simps)
  show ?thesis
  proof (cases "M + 1 < 2 ^ 53")
    case True
    then have "\<bar>M + 1\<bar> < 2 ^ 53" using Mpos by simp
    then have "dbl (of_int (M + 1) * 2 powi (e - 52)) = of_int (M + 1) * 2 powi (e - 52)"
      by (rule dbl_exact)
    then show ?thesis using r by (simp add: u_def e_def)
  next
    case False
    then have "M + 1 = 2 ^ 53" using Mlt by simp
    then have "c + u = of_int 1 * 2 powi (e + 1)" using r pow2_53 [of e] by (simp add: u_def)
    moreover have "dbl (of_int 1 * 2 powi (e + 1)) = of_int 1 * 2 powi (e + 1)"
      by (rule dbl_exact) simp
    ultimately show ?thesis by (simp add: u_def e_def)
  qed
qed

lemma tol_ulp: "2 powi (- 52) \<le> tol"
proof -
  have "(2::real) powi (- 52) = 1 / 2 ^ 52" by (simp add: power_int_minus_divide)
  then show ?thesis by (simp add: tol_value)
qed

lemma dbl_gap:
  assumes "dbl c = c" and "- tol \<le> c" and "c \<le> 1"
  shows "c < dbl (c + tol)"
proof -
  consider "c < 0" | "c = 0" | "0 < c" by linarith
  then show ?thesis
  proof cases
    case 1
    have "dbl 0 \<le> dbl (c + tol)" using assms(2) by (intro dbl_mono) simp
    with 1 show ?thesis by simp
  next
    case 2
    then show ?thesis using tol_pos by simp
  next
    case 3
    then have nz: "c \<noteq> 0" and ac: "\<bar>c\<bar> = c" by simp_all
    have "(2::real) powi exponent c \<le> 1"
      using exponent_bounds(1) [OF nz] assms(3) by (simp add: ac)
    then have "(2::real) powi exponent c < 2 powi 1" by simp
    then have "exponent c < 1" by (rule pow2_less_cancel)
    then have "(2::real) powi (exponent c - 52) \<le> 2 powi (- 52)"
      by (intro power_int_increasing) simp_all
    then have "c + 2 powi (exponent c - 52) \<le> c + tol" using tol_ulp by simp
    then have "dbl (c + 2 powi (exponent c - 52)) \<le> dbl (c + tol)" by (rule dbl_mono)
    then have "c + 2 powi (exponent c - 52) \<le> dbl (c + tol)"
      using dbl_succ [OF assms(1) 3] by simp
    moreover have "0 < (2::real) powi (exponent c - 52)" by simp
    ultimately show ?thesis by linarith
  qed
qed

lemma earlier_gap:
  assumes "dbl c = c" and "c < dsub b tol"
  shows "c < b - tol"
proof (rule ccontr)
  assume "\<not> c < b - tol"
  then have "dbl (b - tol) \<le> dbl c" by (intro dbl_mono) simp
  with assms show False by (simp add: dsub_def)
qed

lemma tied_gap:
  assumes "\<bar>dsub c b\<bar> < tol"
  shows "c < b + tol"
proof (rule ccontr)
  assume "\<not> c < b + tol"
  then have "dbl tol \<le> dbl (c - b)" by (intro dbl_mono) simp
  with assms show False by (simp add: dsub_def)
qed

lemma kept_gap:
  assumes "dbl c = c" and "- tol \<le> c" and "c \<le> 1" and "\<not> c < dsub b tol"
  shows "b < c + 2 * tol"
proof (rule ccontr)
  assume "\<not> b < c + 2 * tol"
  then have "dbl (c + tol) \<le> dbl (b - tol)" by (intro dbl_mono) simp
  with dbl_gap [OF assms(1,2,3)] assms(4) show False by (simp add: dsub_def)
qed

text \<open>The running best is never much later than a candidate that was accepted: each
  step lets it drift by less than one tolerance.\<close>

lemma step_bound:
  assumes rep: "dbl (cand_t c) = cand_t c"
    and inv: "\<forall>d\<in>P. hit_t b < cand_t d + K" and K: "tol \<le> K"
  shows "\<forall>d\<in>P \<union> {d. d = c \<and> accepted dx dy c}. hit_t (try_cand dx dy b c) < cand_t d + (K + tol)"
proof (cases "accepted dx dy c")
  case False
  then show ?thesis using inv tol_pos by (auto simp: try_cand_step)
next
  case True
  then have range: "- tol \<le> cand_t c" "cand_t c \<le> 1" by (simp_all add: accepted_def)
  consider (earlier) "cand_t c < dsub (hit_t b) tol"
    | (tie) "\<not> cand_t c < dsub (hit_t b) tol" "\<bar>dsub (cand_t c) (hit_t b)\<bar> < tol" "preferred dx dy (fst c)"
    | (keep) "\<not> cand_t c < dsub (hit_t b) tol" "\<not> (\<bar>dsub (cand_t c) (hit_t b)\<bar> < tol \<and> preferred dx dy (fst c))"
    by blast
  then show ?thesis
  proof cases
    case earlier
    then have "try_cand dx dy b c = cand_hit c" using True by (simp add: try_cand_step)
    moreover have "cand_t c < hit_t b - tol" using rep earlier by (rule earlier_gap)
    ultimately show ?thesis using inv K tol_pos by fastforce
  next
    case tie
    then have "try_cand dx dy b c = cand_hit c" using True by (simp add: try_cand_step)
    moreover have "cand_t c < hit_t b + tol" using tie(2) by (rule tied_gap)
    ultimately show ?thesis using inv K tol_pos by fastforce
  next
    case keep
    then have "try_cand dx dy b c = b" using True by (auto simp: try_cand_step)
    moreover have "hit_t b < cand_t c + 2 * tol" using rep range keep(1) by (rule kept_gap)
    ultimately show ?thesis using inv K tol_pos by fastforce
  qed
qed

lemma fold_bound:
  assumes "\<forall>c\<in>set cs. dbl (cand_t c) = cand_t c"
    and "\<forall>d\<in>P. hit_t b < cand_t d + K" and "tol \<le> K"
  shows "\<forall>d\<in>P \<union> {d\<in>set cs. accepted dx dy d}.
           hit_t (foldl (try_cand dx dy) b cs) < cand_t d + (K + real (length cs) * tol)"
  using assms
proof (induction cs arbitrary: b P K)
  case Nil
  then show ?case by simp
next
  case (Cons c cs)
  define P' where "P' = P \<union> {d. d = c \<and> accepted dx dy c}"
  have "\<forall>d\<in>P'. hit_t (try_cand dx dy b c) < cand_t d + (K + tol)"
    unfolding P'_def using Cons.prems by (intro step_bound) simp_all
  moreover have "tol \<le> K + tol" using Cons.prems(3) tol_pos by simp
  moreover have "\<forall>c\<in>set cs. dbl (cand_t c) = cand_t c" using Cons.prems(1) by simp
  ultimately have "\<forall>d\<in>P' \<union> {d\<in>set cs. accepted dx dy d}.
      hit_t (foldl (try_cand dx dy) (try_cand dx dy b c) cs) < cand_t d + (K + tol + real (length cs) * tol)"
    by (rule Cons.IH [rotated])
  moreover have "P \<union> {d\<in>set (c # cs). accepted dx dy d} = P' \<union> {d\<in>set cs. accepted dx dy d}"
    unfolding P'_def by auto
  ultimately show ?case by (simp add: algebra_simps)
qed

lemma candidates_length: "length (edge_candidates p0 p1 rect) \<le> 4"
  by (simp add: edge_candidates_def Let_def)

lemma fold_near_earliest:
  assumes "d \<in> set (edge_candidates p0 p1 rect)" and "accepted dx dy d"
  shows "hit_t (foldl (try_cand dx dy) b (edge_candidates p0 p1 rect)) < cand_t d + 5 * tol"
proof -
  let ?cs = "edge_candidates p0 p1 rect"
  have "\<forall>d\<in>{} \<union> {d\<in>set ?cs. accepted dx dy d}.
      hit_t (foldl (try_cand dx dy) b ?cs) < cand_t d + (tol + real (length ?cs) * tol)"
    by (rule fold_bound) (simp_all add: candidates_representable)
  then have "hit_t (foldl (try_cand dx dy) b ?cs) < cand_t d + (tol + real (length ?cs) * tol)"
    using assms by blast
  moreover have "real (length ?cs) * tol \<le> 4 * tol"
    using candidates_length [of p0 p1 rect] tol_pos by simp
  ultimately show ?thesis by simp
qed


text \<open>
  Claim C4, as stated: among all accepted candidates the one with the smallest \<open>t\<close> is
  returned. It fails when two accepted candidates are within the tolerance of each other:
  the preferred kind is returned also when its \<open>t\<close> is the larger one. The segment from
  (-39999, 40000) to (1, -1) enters the rectangle (0,0,100,100) through Left at
  \<open>t = 39999/40000\<close> and leaves it through Top at \<open>t = 40000/40001\<close>, both rounded to
  \<^verbatim>\<open>double\<close>; the two are \<open>6.25e-10\<close> apart, \<open>|dy| > |dx|\<close>, and Top is returned although
  the accepted Left candidate has the smaller \<open>t\<close>.
\<close>

theorem C4_counterexample:
  "FindExitEdge \<lparr>pt_x = - 39999, pt_y = 40000\<rparr> \<lparr>pt_x = 1, pt_y = - 1\<rparr>
                \<lparr>rleft = 0, rtop = 0, rright = 100, rbottom = 100\<rparr>
     = Some \<lparr>hit_edge = Top, hit_t = 4503487040194491 / 2 ^ 52, hit_coord = 214743 / 2 ^ 33\<rparr> \<and>
   edge_candidates \<lparr>pt_x = - 39999, pt_y = 40000\<rparr> \<lparr>pt_x = 1, pt_y = - 1\<rparr>
                \<lparr>rleft = 0, rtop = 0, rright = 100, rbottom = 100\<rparr>
     = [(Left, 9006974074759623 / 2 ^ 53, 1717987 / 2 ^ 36),
        (Top, 4503487040194491 / 2 ^ 52, 214743 / 2 ^ 33)] \<and>
   accepted (seg_dx \<lparr>pt_x = - 39999, pt_y = 40000\<rparr> \<lparr>pt_x = 1, pt_y = - 1\<rparr>)
            (seg_dy \<lparr>pt_x = - 39999, pt_y = 40000\<rparr> \<lparr>pt_x = 1, pt_y = - 1\<rparr>)
            (Left, 9006974074759623 / 2 ^ 53, 1717987 / 2 ^ 36) \<and>
   cand_t (Left, 9006974074759623 / 2 ^ 53, 1717987 / 2 ^ 36)
     < hit_t \<lparr>hit_edge = Top, hit_t = 4503487040194491 / 2 ^ 52, hit_coord = 214743 / 2 ^ 33\<rparr>"
  by code_simp

text \<open>
  Claim C4, amended. For the result \<open>h\<close> of \<^verbatim>\<open>FindExitEdge\<close>, with the differences and the
  comparisons as the code computes them in \<^verbatim>\<open>double\<close>:
  \<^item> \<open>h\<close> is the sentinel when no candidate is accepted, and an accepted candidate otherwise;
  \<^item> its \<open>t\<close> is the smallest up to the tolerance: it is less than five tolerances above
    the \<open>t\<close> of every accepted candidate;
  \<^item> whenever the accepted candidates attain a value \<open>m\<close> and every other one is later than
    \<open>m\<close> by more than the tolerance (\<open>m < t - 1e-9\<close>), \<open>m\<close> is the smallest \<open>t\<close>, \<open>h\<close> has
    \<open>t = m\<close>, its edge is Left or Right if \<open>|dx| \<ge> |dy|\<close> and a Left/Right candidate attains
    \<open>m\<close>, and Top or Bottom if \<open>|dy| > |dx|\<close> and a Top/Bottom candidate attains \<open>m\<close>;
  \<^item> a single accepted candidate is returned; of two accepted candidates, the second in the
    order Right, Left, Bottom, Top is returned exactly when its \<open>t\<close> is smaller than the
    other's by more than the tolerance, or the two are within the tolerance (\<open>|t - t'| <
    1e-9\<close>) and it is of the preferred kind: Left/Right when \<open>|dx| \<ge> |dy|\<close>, Top/Bottom when
    \<open>|dy| > |dx|\<close>. Otherwise the first is returned.
\<close>

theorem C4_earliest_crossing_and_tie_break:
  assumes "FindExitEdge p0 p1 rect = Some h"
  shows "(let dx = seg_dx p0 p1; dy = seg_dy p0 p1; cs = edge_candidates p0 p1 rect in
          ((\<forall>c\<in>set cs. \<not> accepted dx dy c) \<longrightarrow> h = no_hit) \<and>
          ((\<exists>c\<in>set cs. accepted dx dy c) \<longrightarrow> (\<exists>c\<in>set cs. accepted dx dy c \<and> h = cand_hit c)) \<and>
          (\<forall>c\<in>set cs. accepted dx dy c \<longrightarrow> hit_t h < cand_t c + 5 * tol) \<and>
          (\<forall>m. (\<exists>c\<in>set cs. accepted dx dy c \<and> cand_t c = m) \<and>
                (\<forall>c\<in>set cs. accepted dx dy c \<longrightarrow> cand_t c = m \<or> m < dsub (cand_t c) tol) \<longrightarrow>
                (\<forall>c\<in>set cs. accepted dx dy c \<longrightarrow> m \<le> cand_t c) \<and>
                hit_t h = m \<and>
                (\<bar>dx\<bar> \<ge> \<bar>dy\<bar> \<and> (\<exists>c\<in>set cs. accepted dx dy c \<and> cand_t c = m \<and> horiz_edge (fst c))
                   \<longrightarrow> horiz_edge (hit_edge h)) \<and>
                (\<bar>dy\<bar> > \<bar>dx\<bar> \<and> (\<exists>c\<in>set cs. accepted dx dy c \<and> cand_t c = m \<and> vert_edge (fst c))
                   \<longrightarrow> vert_edge (hit_edge h))) \<and>
          (\<forall>c. filter (accepted dx dy) cs = [c] \<longrightarrow> h = cand_hit c) \<and>
          (\<forall>c d. filter (accepted dx dy) cs = [c, d] \<longrightarrow>
             h = (if cand_t d < dsub (cand_t c) tol \<or>
                     (\<bar>dsub (cand_t d) (cand_t c)\<bar> < tol \<and> preferred dx dy (fst d))
                  then cand_hit d else cand_hit c)))"
proof -
  define dx where "dx = seg_dx p0 p1"
  define dy where "dy = seg_dy p0 p1"
  define cs where "cs = edge_candidates p0 p1 rect"
  have h: "h = foldl (try_cand dx dy) no_hit cs"
    using assms by (simp add: FindExitEdge_fold dx_def dy_def cs_def)
  have ord: "hv_ordered cs"
    by (simp add: cs_def hv_ordered_candidates)
  have rep: "dbl (cand_t c) = cand_t c" if "c \<in> set cs" for c
    using that unfolding cs_def by (rule candidates_representable)
  have t0: "hit_t no_hit = 2"
    by (simp add: no_hit_def)
  have none: "(\<forall>c\<in>set cs. \<not> accepted dx dy c) \<longrightarrow> h = no_hit"
    by (simp add: h fold_none_accepted)
  have some: "(\<exists>c\<in>set cs. accepted dx dy c) \<longrightarrow> (\<exists>c\<in>set cs. accepted dx dy c \<and> h = cand_hit c)"
    unfolding h using fold_picks_candidate [OF t0] by blast
  have near: "\<forall>c\<in>set cs. accepted dx dy c \<longrightarrow> hit_t h < cand_t c + 5 * tol"
    unfolding h cs_def using fold_near_earliest by blast
  have minimal: "(\<forall>c\<in>set cs. accepted dx dy c \<longrightarrow> m \<le> cand_t c) \<and>
      hit_t h = m \<and>
      (\<bar>dx\<bar> \<ge> \<bar>dy\<bar> \<and> (\<exists>c\<in>set cs. accepted dx dy c \<and> cand_t c = m \<and> horiz_edge (fst c))
         \<longrightarrow> horiz_edge (hit_edge h)) \<and>
      (\<bar>dy\<bar> > \<bar>dx\<bar> \<and> (\<exists>c\<in>set cs. accepted dx dy c \<and> cand_t c = m \<and> vert_edge (fst c))
         \<longrightarrow> vert_edge (hit_edge h))"
    if ex: "\<exists>c\<in>set cs. accepted dx dy c \<and> cand_t c = m"
      and sep: "\<forall>c\<in>set cs. accepted dx dy c \<longrightarrow> cand_t c = m \<or> m < dsub (cand_t c) tol" for m
  proof -
    have m1: "m \<le> 1" using ex by (auto simp: accepted_def)
    have repm: "dbl m = m" using ex rep by blast
    have far: "m < dsub (hit_t no_hit) tol"
      unfolding t0 using m1 by (rule first_is_earlier)
    have least: "m \<le> cand_t c" if "c \<in> set cs" "accepted dx dy c" for c
    proof (cases "cand_t c = m")
      case True
      then show ?thesis by simp
    next
      case False
      then have "m < dsub (cand_t c) tol" using sep that by blast
      then have "m + tol < cand_t c" using repm by (rule later_gap)
      then show ?thesis using tol_pos by simp
    qed
    have "hit_t h = m"
      unfolding h using fold_t_reaches_min [OF repm sep _ ex] far by blast
    moreover have "horiz_edge (hit_edge h)"
      if "\<bar>dx\<bar> \<ge> \<bar>dy\<bar>" "\<exists>c\<in>set cs. accepted dx dy c \<and> cand_t c = m \<and> horiz_edge (fst c)"
      unfolding h using fold_becomes_horizontal [OF that(1) repm sep far ord that(2)] .
    moreover have "vert_edge (hit_edge h)"
      if "\<bar>dy\<bar> > \<bar>dx\<bar>" "\<exists>c\<in>set cs. accepted dx dy c \<and> cand_t c = m \<and> vert_edge (fst c)"
      unfolding h using fold_becomes_vertical [OF that(1) repm sep _ ord that(2)] far by blast
    ultimately show ?thesis using least by blast
  qed
  have sep_case: "\<forall>m. (\<exists>c\<in>set cs. accepted dx dy c \<and> cand_t c = m) \<and>
                (\<forall>c\<in>set cs. accepted dx dy c \<longrightarrow> cand_t c = m \<or> m < dsub (cand_t c) tol) \<longrightarrow>
                (\<forall>c\<in>set cs. accepted dx dy c \<longrightarrow> m \<le> cand_t c) \<and>
                hit_t h = m \<and>
                (\<bar>dx\<bar> \<ge> \<bar>dy\<bar> \<and> (\<exists>c\<in>set cs. accepted dx dy c \<and> cand_t c = m \<and> horiz_edge (fst c))
                   \<longrightarrow> horiz_edge (hit_edge h)) \<and>
                (\<bar>dy\<bar> > \<bar>dx\<bar> \<and> (\<exists>c\<in>set cs. accepted dx dy c \<and> cand_t c = m \<and> vert_edge (fst c))
                   \<longrightarrow> vert_edge (hit_edge h))"
    using minimal by (intro allI impI) (elim conjE)
  have one: "\<forall>c. filter (accepted dx dy) cs = [c] \<longrightarrow> h = cand_hit c"
    unfolding h using fold_one_accepted by blast
  have two: "\<forall>c d. filter (accepted dx dy) cs = [c, d] \<longrightarrow>
             h = (if cand_t d < dsub (cand_t c) tol \<or>
                     (\<bar>dsub (cand_t d) (cand_t c)\<bar> < tol \<and> preferred dx dy (fst d))
                  then cand_hit d else cand_hit c)"
    unfolding h using fold_two_accepted by blast
  show ?thesis
    unfolding Let_def dx_def [symmetric] dy_def [symmetric] cs_def [symmetric]
    by (rule conjI [OF none conjI [OF some conjI [OF near conjI [OF sep_case conjI [OF one two]]]]])
qed

text \<open>Witness for C4: the claim's example, the segment (95,95) to (105,105) against the
  rectangle (0,0,100,100). Right and Bottom are the two accepted candidates, both at
  \<open>t = 1/2\<close>, \<open>|dx| = |dy|\<close>, and the result is Right: by the rule for ties at the smallest
  \<open>t\<close>, and by the rule for two accepted candidates.\<close>

theorem C4_earliest_crossing_and_tie_break_witness:
  "FindExitEdge \<lparr>pt_x = 95, pt_y = 95\<rparr> \<lparr>pt_x = 105, pt_y = 105\<rparr>
                \<lparr>rleft = 0, rtop = 0, rright = 100, rbottom = 100\<rparr>
     = Some \<lparr>hit_edge = Right, hit_t = 1 / 2, hit_coord = 100\<rparr> \<and>
   hit_t \<lparr>hit_edge = Right, hit_t = 1 / 2, hit_coord = 100\<rparr> = 1 / 2 \<and>
   horiz_edge (hit_edge \<lparr>hit_edge = Right, hit_t = 1 / 2, hit_coord = 100\<rparr>) \<and>
   \<lparr>hit_edge = Right, hit_t = 1 / 2, hit_coord = 100\<rparr> = cand_hit (Right, 1 / 2, 100)"
proof -
  let ?p0 = "\<lparr>pt_x = 95, pt_y = 95\<rparr>" and ?p1 = "\<lparr>pt_x = 105, pt_y = 105\<rparr>"
  let ?r = "\<lparr>rleft = 0, rtop = 0, rright = 100, rbottom = 100\<rparr>"
  let ?h = "\<lparr>hit_edge = Right, hit_t = 1 / 2, hit_coord = 100\<rparr>"
  let ?cs = "[(Right, 1 / 2, 100), (Left, - 19 / 2, 0), (Bottom, 1 / 2, 100), (Top, - 19 / 2, 0)]
               :: candidate list"
  let ?cR = "(Right, 1 / 2, 100) :: candidate" and ?cB = "(Bottom, 1 / 2, 100) :: candidate"
  have ev: "FindExitEdge ?p0 ?p1 ?r = Some ?h"
    by code_simp
  have cs: "edge_candidates ?p0 ?p1 ?r = ?cs"
    by code_simp
  have d: "seg_dx ?p0 ?p1 = 10" "seg_dy ?p0 ?p1 = 10"
    by (simp_all add: seg_dx_exact seg_dy_exact)
  have acc: "accepted 10 10 (Right, 1 / 2, 100)" "\<not> accepted 10 10 (Left, - 19 / 2, 0)"
      "accepted 10 10 (Bottom, 1 / 2, 100)" "\<not> accepted 10 10 (Top, - 19 / 2, 0)"
    by (simp_all add: accepted_def cand_t_def outward_def tol_value)
  have half: "dsub (1 / 2) tol < 1 / 2"
    unfolding dsub_def by code_simp
  note general = C4_earliest_crossing_and_tie_break [OF ev, unfolded Let_def cs d]
  note tie = general [THEN conjunct2, THEN conjunct2, THEN conjunct2, THEN conjunct1,
      THEN spec [of _ "1 / 2"], THEN mp]
  note two = general [THEN conjunct2, THEN conjunct2, THEN conjunct2, THEN conjunct2, THEN conjunct2,
      THEN spec [of _ ?cR], THEN spec [of _ ?cB], THEN mp]
  have "(\<forall>c\<in>set ?cs. accepted 10 10 c \<longrightarrow> 1 / 2 \<le> cand_t c) \<and>
     hit_t ?h = 1 / 2 \<and>
     (\<bar>10::real\<bar> \<ge> \<bar>10\<bar> \<and> (\<exists>c\<in>set ?cs. accepted 10 10 c \<and> cand_t c = 1 / 2 \<and> horiz_edge (fst c))
         \<longrightarrow> horiz_edge (hit_edge ?h)) \<and>
     (\<bar>10::real\<bar> > \<bar>10\<bar> \<and> (\<exists>c\<in>set ?cs. accepted 10 10 c \<and> cand_t c = 1 / 2 \<and> vert_edge (fst c))
         \<longrightarrow> vert_edge (hit_edge ?h))"
    by (rule tie) (use acc in \<open>simp add: cand_t_def\<close>)
  then have a: "hit_t ?h = 1 / 2" "horiz_edge (hit_edge ?h)"
    using acc by (simp_all add: cand_t_def horiz_edge_def)
  have "?h = (if cand_t ?cB < dsub (cand_t ?cR) tol \<or>
                 (\<bar>dsub (cand_t ?cB) (cand_t ?cR)\<bar> < tol \<and> preferred 10 10 (fst ?cB))
              then cand_hit ?cB else cand_hit ?cR)"
    by (rule two) (use acc in simp)
  then have b: "?h = cand_hit (Right, 1 / 2, 100)"
    using half by (simp add: cand_t_def preferred_def)
  from ev a b show ?thesis by simp
qed

text \<open>Three inputs on which the rounding decides the result. From (93,7) to (118,-18) the
  segment leaves (0,0,100,100) through its top-right corner: \<open>t = 7/25\<close> is not
  representable, the \<open>y\<close> of the Right crossing comes out as \<open>-2^(-50)\<close>, below \<open>rect.top\<close>,
  and only the Top crossing is a candidate. From (7,7) to (-18,-18), through the top-left
  corner, both crossings come out just outside the rectangle's extent and there is no hit.
  And a hit at 13 of 720 maps to \<open>19.499999999999996\<close> of 1080, which rounds to 19.\<close>

lemma corner_exit_top_right:
  "FindExitEdge \<lparr>pt_x = 93, pt_y = 7\<rparr> \<lparr>pt_x = 118, pt_y = - 18\<rparr>
                \<lparr>rleft = 0, rtop = 0, rright = 100, rbottom = 100\<rparr>
     = Some \<lparr>hit_edge = Top, hit_t = 1261007895663739 / 2 ^ 52, hit_coord = 100\<rparr>"
  by code_simp

lemma corner_exit_top_left:
  "FindExitEdge \<lparr>pt_x = 7, pt_y = 7\<rparr> \<lparr>pt_x = - 18, pt_y = - 18\<rparr>
                \<lparr>rleft = 0, rtop = 0, rright = 100, rbottom = 100\<rparr>
     = Some \<lparr>hit_edge = Edge_None, hit_t = 2, hit_coord = 0\<rparr>"
  by code_simp

lemma remap_rounds_down:
  "RemapCursor \<lparr>rleft = 0, rtop = 0, rright = 1280, rbottom = 720\<rparr>
               \<lparr>rleft = 1280, rtop = 0, rright = 3200, rbottom = 1080\<rparr> Right 13
     = Some \<lparr>pt_x = 1281, pt_y = 19\<rparr>"
  by code_simp

subsection \<open>\<^verbatim>\<open>RefreshMonitors\<close> and \<^verbatim>\<open>MouseHookProc\<close>\<close>

lemma build_empty: "BuildTopoSignature [] = ([], [])"
  by (simp add: BuildTopoSignature_def std_sort_def)

text \<open>The two-display state \<open>tracking_state\<close> used in the examples below is the one the
  program is in after its first topology check has enumerated the two displays (in either
  order) and one mouse move at (1919, 540) on the first display has been handled.\<close>

lemma sig_example:
  "BuildTopoSignature [mon2, mon1] =
     ([mon1, mon2], ''0,0,1920,1080,1,DISPLAY1;1920,0,4480,1440,0,DISPLAY2;'')"
  by code_simp

lemma tracking_state_reached:
  "message_loop env_ok
     [TopologyCheck [mon2, mon1],
      MouseEvent 0 512 \<lparr>pt = \<lparr>pt_x = 1919, pt_y = 540\<rparr>, flags = 0\<rparr>] = tracking_state"
  by (simp add: message_loop_def g_init_def RefreshMonitors_def sig_example MouseHookProc_def
        hook_done_def HC_ACTION_def WM_MOUSEMOVE_def LLMHF_INJECTED_def env_ok_def display_at_def
        rect_contains_def tracking_state_def LONG_MIN_def Let_def)
    (simp add: mon1_def)

lemma exit_example:
  "FindExitEdge \<lparr>pt_x = 1919, pt_y = 540\<rparr> \<lparr>pt_x = 1920, pt_y = 540\<rparr>
     \<lparr>rleft = 0, rtop = 0, rright = 1920, rbottom = 1080\<rparr>
   = Some \<lparr>hit_edge = Right, hit_t = 1, hit_coord = 540\<rparr>"
  by code_simp

lemma remap_example:
  "RemapCursor \<lparr>rleft = 0, rtop = 0, rright = 1920, rbottom = 1080\<rparr>
               \<lparr>rleft = 1920, rtop = 0, rright = 4480, rbottom = 1440\<rparr> Right 540
   = Some \<lparr>pt_x = 1921, pt_y = 720\<rparr>"
  by code_simp

lemma crossing_relocates:
  "MouseHookProc env_ok 0 512 \<lparr>pt = \<lparr>pt_x = 1920, pt_y = 540\<rparr>, flags = 0\<rparr> tracking_state
   = (Return_1, tracking_state\<lparr>g_lastMonitor := 2, g_lastPos := \<lparr>pt_x = 1921, pt_y = 720\<rparr>\<rparr>)"
  by (simp add: MouseHookProc_def HC_ACTION_def WM_MOUSEMOVE_def LLMHF_INJECTED_def
        tracking_state_def env_ok_def display_at_def mon1_def mon2_def rect_contains_def
        FindMonitor_def LONG_MIN_def exit_example remap_example Let_def)

lemma crossing_relocation_fails:
  "MouseHookProc env_fail 0 512 \<lparr>pt = \<lparr>pt_x = 1920, pt_y = 540\<rparr>, flags = 0\<rparr> tracking_state
   = (CallNextHookEx, tracking_state\<lparr>g_lastMonitor := 2, g_lastPos := \<lparr>pt_x = 1920, pt_y = 540\<rparr>\<rparr>)"
  by (simp add: MouseHookProc_def hook_done_def HC_ACTION_def WM_MOUSEMOVE_def LLMHF_INJECTED_def
        tracking_state_def env_fail_def display_at_def mon1_def mon2_def rect_contains_def
        FindMonitor_def LONG_MIN_def exit_example remap_example Let_def)

lemma hook_keeps_flag_clear:
  "\<not> g_suppressing s \<Longrightarrow> \<not> g_suppressing (snd (MouseHookProc env nCode wParam ms s))"
  by (auto simp: MouseHookProc_def hook_done_def Let_def split: option.splits prod.splits if_splits)

lemma refresh_keeps_flag:
  "g_suppressing (RefreshMonitors fresh s) = g_suppressing s"
  by (simp add: RefreshMonitors_def Let_def split: prod.splits)

lemma loop_keeps_flag_clear:
  "\<not> g_suppressing s \<Longrightarrow> \<not> g_suppressing (foldl (dispatch env) s msgs)"
proof (induction msgs arbitrary: s)
  case Nil
  then show ?case by simp
next
  case (Cons m msgs)
  have "\<not> g_suppressing (dispatch env s m)"
    using Cons.prems by (cases m) (simp_all add: hook_keeps_flag_clear refresh_keeps_flag)
  then show ?case using Cons.IH by simp
qed

text \<open>
  Claim C1, as stated: on a refresh after the first in which the enumeration yields zero
  displays, the held snapshot, the signature and the CursorState are left as they were.
  It fails: \<^verbatim>\<open>RefreshMonitors\<close> has no case for an empty enumeration, the empty signature
  differs from the held one, and the globals are replaced and reset.
\<close>

theorem C1_counterexample:
  "RefreshMonitors [] tracking_state =
     \<lparr>g_monitors = [], g_lastMonitor = 0, g_lastPos = \<lparr>pt_x = LONG_MIN, pt_y = LONG_MIN\<rparr>,
      g_suppressing = False, g_topoSignature = []\<rparr> \<and>
   RefreshMonitors [] tracking_state \<noteq> tracking_state"
  by (simp add: RefreshMonitors_def build_empty tracking_state_def)

text \<open>
  Claim C1, amended: on a refresh in which the enumeration yields zero displays, the
  globals are left exactly as they were only if the held signature is already empty;
  otherwise the empty enumeration is taken like any other change: the monitor list and
  the signature become empty and the CursorState's last monitor and last position are
  reset to unknown.
\<close>

theorem C1_refresh_zero_displays:
  "RefreshMonitors [] s =
     (if g_topoSignature s = [] then s
      else s\<lparr>g_monitors := [], g_topoSignature := [], g_lastMonitor := 0,
             g_lastPos := \<lparr>pt_x = LONG_MIN, pt_y = LONG_MIN\<rparr>\<rparr>)"
  by (auto simp: RefreshMonitors_def build_empty)

text \<open>
  Claim C8. Every move event whose injected flag is set, and every move event arriving
  while the suppression flag is active, is passed through unmodified (the hook returns
  the result of \<^verbatim>\<open>CallNextHookEx\<close>) and leaves the globals, the whole CursorState among
  them, exactly unchanged.
\<close>

theorem C8_reentrancy_guard:
  "flags ms AND LLMHF_INJECTED \<noteq> 0 \<or> g_suppressing s \<Longrightarrow>
   MouseHookProc env nCode wParam ms s = (CallNextHookEx, s)"
  by (auto simp: MouseHookProc_def)

text \<open>Witness for C8: the move from (1919, 540) on the first display to (1920, 540) on the
  second is a valid crossing (unflagged, it is relocated to (1921, 720) and suppressed);
  with the injected flag, or with the suppression flag active, it is passed through and
  nothing changes.\<close>

theorem C8_reentrancy_guard_witness:
  "MouseHookProc env_ok 0 512 \<lparr>pt = \<lparr>pt_x = 1920, pt_y = 540\<rparr>, flags = 1\<rparr> tracking_state
     = (CallNextHookEx, tracking_state) \<and>
   MouseHookProc env_ok 0 512 \<lparr>pt = \<lparr>pt_x = 1920, pt_y = 540\<rparr>, flags = 0\<rparr>
       (tracking_state\<lparr>g_suppressing := True\<rparr>)
     = (CallNextHookEx, tracking_state\<lparr>g_suppressing := True\<rparr>) \<and>
   MouseHookProc env_ok 0 512 \<lparr>pt = \<lparr>pt_x = 1920, pt_y = 540\<rparr>, flags = 0\<rparr> tracking_state
     = (Return_1, tracking_state\<lparr>g_lastMonitor := 2, g_lastPos := \<lparr>pt_x = 1921, pt_y = 720\<rparr>\<rparr>)"
  using C8_reentrancy_guard [of "\<lparr>pt = \<lparr>pt_x = 1920, pt_y = 540\<rparr>, flags = 1\<rparr>" tracking_state env_ok 0 512]
        C8_reentrancy_guard [of "\<lparr>pt = \<lparr>pt_x = 1920, pt_y = 540\<rparr>, flags = 0\<rparr>"
                                "tracking_state\<lparr>g_suppressing := True\<rparr>" env_ok 0 512]
        crossing_relocates
  by (simp add: LLMHF_INJECTED_def)

lemma crossing_probed:
  "MouseHookProc env_probe 0 512 \<lparr>pt = \<lparr>pt_x = 1920, pt_y = 540\<rparr>, flags = 0\<rparr> tracking_state
   = (Return_1, tracking_state\<lparr>g_lastMonitor := 2, g_lastPos := \<lparr>pt_x = 1921, pt_y = 720\<rparr>\<rparr>)"
  by (simp add: MouseHookProc_def HC_ACTION_def WM_MOUSEMOVE_def LLMHF_INJECTED_def
        tracking_state_def env_probe_def display_at_def mon1_def mon2_def rect_contains_def
        FindMonitor_def LONG_MIN_def exit_example remap_example Let_def)

lemma hook_done_env:
  "hook_done (env\<lparr>SetCursorPos := f\<rparr>) wParam ms s = hook_done env wParam ms s"
  by (simp add: hook_done_def)

lemma hook_sets_flag_for_call:
  "MouseHookProc (env\<lparr>SetCursorPos := \<lambda>s x y. SetCursorPos env (s\<lparr>g_suppressing := True\<rparr>) x y\<rparr>)
       nCode wParam ms s
   = MouseHookProc env nCode wParam ms s"
  by (simp add: MouseHookProc_def hook_done_env Let_def split: option.splits prod.splits)

text \<open>
  Claim C10. The suppression flag is false after every complete invocation of the
  mouse-hook handler, on every exit path: it is set to true immediately before the call
  of \<^verbatim>\<open>SetCursorPos\<close> and reset to false when that call returns, whether or not the
  relocation succeeds. As a theorem, whatever the environment does and whatever
  \<^verbatim>\<open>SetCursorPos\<close> returns:
  \<^item> the flag is false after every message the loop has handled;
  \<^item> an invocation of the hook that starts with the flag false ends with the flag false;
  \<^item> \<^verbatim>\<open>SetCursorPos\<close> is only ever called with the flag set: the hook behaves the same
    when \<^verbatim>\<open>SetCursorPos\<close> is replaced by one that first sets the flag.
\<close>

theorem C10_suppression_flag_cleared:
  "\<not> g_suppressing (message_loop env msgs) \<and>
   (\<not> g_suppressing s \<longrightarrow> \<not> g_suppressing (snd (MouseHookProc env nCode wParam ms s))) \<and>
   MouseHookProc (env\<lparr>SetCursorPos := \<lambda>s x y. SetCursorPos env (s\<lparr>g_suppressing := True\<rparr>) x y\<rparr>)
       nCode wParam ms s
     = MouseHookProc env nCode wParam ms s"
  using loop_keeps_flag_clear [of g_init env msgs] hook_keeps_flag_clear [of s env nCode wParam ms]
    hook_sets_flag_for_call [of env nCode wParam ms s]
  by (simp add: message_loop_def g_init_def)

text \<open>Witness for C10: the crossing from (1919, 540) to (1920, 540), in two environments.
  In the first \<^verbatim>\<open>SetCursorPos\<close> fails: the hook passes the event on, tracks the new
  position, and the flag is false. In the second \<^verbatim>\<open>SetCursorPos\<close> reports the flag it is
  called with as its result: the relocation is reported as done, so the flag was set during
  the call, and it is false afterwards.\<close>

theorem C10_suppression_flag_cleared_witness:
  "\<not> g_suppressing tracking_state \<and>
   \<not> g_suppressing (snd (MouseHookProc env_fail 0 512
        \<lparr>pt = \<lparr>pt_x = 1920, pt_y = 540\<rparr>, flags = 0\<rparr> tracking_state)) \<and>
   MouseHookProc env_fail 0 512 \<lparr>pt = \<lparr>pt_x = 1920, pt_y = 540\<rparr>, flags = 0\<rparr> tracking_state
     = (CallNextHookEx, tracking_state\<lparr>g_lastMonitor := 2, g_lastPos := \<lparr>pt_x = 1920, pt_y = 540\<rparr>\<rparr>) \<and>
   MouseHookProc env_probe 0 512 \<lparr>pt = \<lparr>pt_x = 1920, pt_y = 540\<rparr>, flags = 0\<rparr> tracking_state
     = (Return_1, tracking_state\<lparr>g_lastMonitor := 2, g_lastPos := \<lparr>pt_x = 1921, pt_y = 720\<rparr>\<rparr>) \<and>
   MouseHookProc \<lparr>MonitorFromPoint = display_at,
                  SetCursorPos = \<lambda>s x y. (True, s\<lparr>g_suppressing := True\<rparr>)\<rparr>
       0 512 \<lparr>pt = \<lparr>pt_x = 1920, pt_y = 540\<rparr>, flags = 0\<rparr> tracking_state
     = (Return_1, tracking_state\<lparr>g_lastMonitor := 2, g_lastPos := \<lparr>pt_x = 1921, pt_y = 720\<rparr>\<rparr>) \<and>
   \<not> g_suppressing (tracking_state\<lparr>g_lastMonitor := 2, g_lastPos := \<lparr>pt_x = 1921, pt_y = 720\<rparr>\<rparr>)"
proof -
  let ?ms = "\<lparr>pt = \<lparr>pt_x = 1920, pt_y = 540\<rparr>, flags = 0\<rparr>"
  have clear: "\<not> g_suppressing tracking_state"
    by (simp add: tracking_state_def)
  have probe: "env_probe\<lparr>SetCursorPos := \<lambda>s x y. SetCursorPos env_probe (s\<lparr>g_suppressing := True\<rparr>) x y\<rparr>
      = \<lparr>MonitorFromPoint = display_at, SetCursorPos = \<lambda>s x y. (True, s\<lparr>g_suppressing := True\<rparr>)\<rparr>"
    by (simp add: env_probe_def)
  note fail = C10_suppression_flag_cleared [of env_fail "[]" tracking_state 0 512 ?ms]
  note set = C10_suppression_flag_cleared [of env_probe "[]" tracking_state 0 512 ?ms,
      THEN conjunct2, THEN conjunct2, unfolded probe]
  show ?thesis
    using fail set clear crossing_relocation_fails crossing_probed
    by simp
qed

subsection \<open>\<^verbatim>\<open>BuildTopoSignature\<close>\<close>

lemma wmemcmp_lex:
  "n \<le> length a \<Longrightarrow> n \<le> length b \<Longrightarrow>
   (wmemcmp a b n < 0 \<longleftrightarrow> take n a < take n b) \<and>
   (wmemcmp a b n = 0 \<longleftrightarrow> take n a = take n b)"
  by (induction a b n rule: wmemcmp.induct) auto

lemma monitor_less_key:
  assumes "CCHDEVICENAME \<le> length (device a)" "CCHDEVICENAME \<le> length (device b)"
  shows "monitor_less a b \<longleftrightarrow> sort_key a < sort_key b"
  using wmemcmp_lex [OF assms]
  by (auto simp: monitor_less_def sort_key_def Let_def)

lemma sort_key_tuple: "sort_key m = tuple_key (monitor_tuple m)"
  by (simp add: sort_key_def tuple_key_def monitor_tuple_def)

lemma monitor_sig_tuple: "monitor_sig m = tuple_sig (monitor_tuple m)"
  by (simp add: monitor_sig_def tuple_sig_def monitor_tuple_def)

lemma mset_insert_sorted: "mset (insert_sorted lt x ys) = add_mset x (mset ys)"
  by (induction ys) simp_all

lemma mset_foldl_insert:
  "mset (foldl (\<lambda>sorted x. insert_sorted lt x sorted) acc xs) = mset acc + mset xs"
  by (induction xs arbitrary: acc) (simp_all add: mset_insert_sorted)

lemma mset_std_sort: "mset (std_sort lt xs) = mset xs"
  by (simp add: std_sort_def mset_foldl_insert)

lemma set_insert_sorted: "set (insert_sorted lt x ys) = insert x (set ys)"
  by (induction ys) auto

lemma set_std_sort: "set (std_sort lt xs) = set xs"
proof -
  have "set_mset (mset (std_sort lt xs)) = set_mset (mset xs)"
    by (simp only: mset_std_sort)
  then show ?thesis by simp
qed

lemma sorted_insert_sorted:
  assumes "\<forall>y\<in>set ys. lt x y \<longleftrightarrow> k x < k y" and "sorted (map k ys)"
  shows "sorted (map k (insert_sorted lt x ys))"
  using assms
proof (induction ys)
  case Nil
  then show ?case by simp
next
  case (Cons y ys)
  show ?case
  proof (cases "lt x y")
    case True
    then have "k x < k y" using Cons.prems(1) by simp
    then show ?thesis using True Cons.prems(2) by auto
  next
    case False
    then have le: "k y \<le> k x" using Cons.prems(1) by auto
    have "sorted (map k (insert_sorted lt x ys))"
      using Cons by simp
    moreover have "\<forall>z\<in>set (insert_sorted lt x ys). k y \<le> k z"
      using le Cons.prems(2) by (auto simp: set_insert_sorted)
    ultimately show ?thesis using False by simp
  qed
qed

lemma sorted_foldl_insert:
  assumes "\<forall>a\<in>set acc \<union> set xs. \<forall>b\<in>set acc \<union> set xs. lt a b \<longleftrightarrow> k a < k b"
    and "sorted (map k acc)"
  shows "sorted (map k (foldl (\<lambda>sorted x. insert_sorted lt x sorted) acc xs))"
  using assms
proof (induction xs arbitrary: acc)
  case Nil
  then show ?case by simp
next
  case (Cons x xs)
  have s: "sorted (map k (insert_sorted lt x acc))"
    using Cons.prems by (intro sorted_insert_sorted) auto
  have "set (insert_sorted lt x acc) = insert x (set acc)"
    by (rule set_insert_sorted)
  then have "\<forall>a\<in>set (insert_sorted lt x acc) \<union> set xs.
         \<forall>b\<in>set (insert_sorted lt x acc) \<union> set xs. lt a b \<longleftrightarrow> k a < k b"
    using Cons.prems(1) by auto
  then show ?case using Cons.IH [OF _ s] by simp
qed

lemma sorted_std_sort:
  assumes "\<forall>a\<in>set xs. \<forall>b\<in>set xs. lt a b \<longleftrightarrow> k a < k b"
  shows "sorted (map k (std_sort lt xs))"
  unfolding std_sort_def using assms by (intro sorted_foldl_insert) auto

lemma sorted_tuples_unique:
  fixes us vs :: "(RECT \<times> bool \<times> WCHAR list) list"
  assumes m: "mset us = mset vs"
    and d: "distinct (map tuple_key us)"
    and su: "sorted (map tuple_key us)" and sv: "sorted (map tuple_key vs)"
  shows "us = vs"
proof -
  have mk: "mset (map tuple_key us) = mset (map tuple_key vs)"
    by (simp only: mset_map m)
  have dv: "distinct (map tuple_key vs)"
    using d mset_eq_imp_distinct_iff [OF mk] by simp
  have "set (map tuple_key us) = set (map tuple_key vs)"
    using mk by (rule mset_eq_setD)
  then have keys: "map tuple_key us = map tuple_key vs"
    using su sv d dv by (intro sorted_distinct_set_unique)
  have "set us = set vs"
    using m by (rule mset_eq_setD)
  moreover have "inj_on tuple_key (set us)"
    using d by (simp add: distinct_map)
  ultimately have "inj_on tuple_key (set us \<union> set vs)" by simp
  then show ?thesis using keys by (simp add: inj_on_map_eq_map)
qed

lemma signature_order_independent:
  assumes wf: "\<forall>m\<in>set xs \<union> set ys. length (device m) = CCHDEVICENAME"
    and m: "mset (map monitor_tuple xs) = mset (map monitor_tuple ys)"
    and d: "distinct (map sort_key xs)"
  shows "snd (BuildTopoSignature xs) = snd (BuildTopoSignature ys)"
proof -
  define us where "us = map monitor_tuple (std_sort monitor_less xs)"
  define vs where "vs = map monitor_tuple (std_sort monitor_less ys)"
  have kx: "\<forall>a\<in>set xs. \<forall>b\<in>set xs. monitor_less a b \<longleftrightarrow> sort_key a < sort_key b"
    using wf by (simp add: monitor_less_key)
  have ky: "\<forall>a\<in>set ys. \<forall>b\<in>set ys. monitor_less a b \<longleftrightarrow> sort_key a < sort_key b"
    using wf by (simp add: monitor_less_key)
  have key_map: "map tuple_key (map monitor_tuple zs) = map sort_key zs" for zs
    by (simp add: sort_key_tuple)
  have mu: "mset us = mset (map monitor_tuple xs)"
    unfolding us_def by (simp only: mset_map mset_std_sort)
  have mv: "mset vs = mset (map monitor_tuple ys)"
    unfolding vs_def by (simp only: mset_map mset_std_sort)
  have "mset (map tuple_key us) = mset (map sort_key xs)"
    unfolding us_def key_map by (simp only: mset_map mset_std_sort)
  then have du: "distinct (map tuple_key us)"
    using d mset_eq_imp_distinct_iff [of "map tuple_key us" "map sort_key xs"] by simp
  have su: "sorted (map tuple_key us)"
    unfolding us_def key_map using kx by (rule sorted_std_sort)
  have sv: "sorted (map tuple_key vs)"
    unfolding vs_def key_map using ky by (rule sorted_std_sort)
  have "us = vs"
    using mu mv m du su sv by (intro sorted_tuples_unique) simp_all
  then have "map tuple_sig us = map tuple_sig vs" by simp
  then have "map monitor_sig (std_sort monitor_less xs) = map monitor_sig (std_sort monitor_less ys)"
    by (simp add: us_def vs_def monitor_sig_tuple [abs_def] comp_def)
  then show ?thesis
    by (simp add: BuildTopoSignature_def Let_def)
qed

lemma of_char_digit: "d < 10 \<Longrightarrow> of_char (digit_char d) = (48 + d :: nat)"
  by (simp add: digit_char_def)

lemma numeric_digit: "d < 10 \<Longrightarrow> numeric (digit_char d)"
  by (simp add: numeric_def of_char_digit)

lemma digit_char_inj:
  assumes "d < 10" and "e < 10" and eq: "digit_char d = digit_char e"
  shows "d = e"
proof -
  have "(of_char (digit_char d) :: nat) = of_char (digit_char e)"
    by (simp only: eq)
  then have "48 + d = 48 + e"
    by (simp only: of_char_digit [OF assms(1)] of_char_digit [OF assms(2)])
  then show ?thesis by simp
qed

lemma dec_nat_numeric: "list_all numeric (dec_nat n)"
proof (induction n rule: dec_nat.induct)
  case (1 n)
  show ?case
  proof (cases "n < 10")
    case True
    then show ?thesis by (simp add: dec_nat.simps [of n] numeric_digit)
  next
    case False
    then show ?thesis using 1 by (simp add: dec_nat.simps [of n] numeric_digit)
  qed
qed

lemma dec_nat_not_Nil: "dec_nat n \<noteq> []"
  by (simp add: dec_nat.simps [of n])

lemma dec_nat_length: "length (dec_nat n) = 1 \<longleftrightarrow> n < 10"
  using dec_nat_not_Nil [of "n div 10"]
  by (auto simp: dec_nat.simps [of n] )

lemma dec_nat_inj: "dec_nat n = dec_nat m \<Longrightarrow> n = m"
proof (induction n arbitrary: m rule: dec_nat.induct)
  case (1 n)
  show ?case
  proof (cases "n < 10")
    case True
    then have "m < 10" using "1.prems" dec_nat_length [of n] dec_nat_length [of m] by simp
    then show ?thesis
      using True "1.prems" by (simp add: dec_nat.simps [of n] dec_nat.simps [of m] digit_char_inj)
  next
    case False
    then have m10: "\<not> m < 10" using "1.prems" dec_nat_length [of n] dec_nat_length [of m] by simp
    from "1.prems" False m10
    have "dec_nat (n div 10) @ [digit_char (n mod 10)] = dec_nat (m div 10) @ [digit_char (m mod 10)]"
      by (simp add: dec_nat.simps [of n] dec_nat.simps [of m])
    then have a: "dec_nat (n div 10) = dec_nat (m div 10)" and b: "digit_char (n mod 10) = digit_char (m mod 10)"
      by simp_all
    have "n div 10 = m div 10" using "1.IH" [OF False a] .
    moreover have "n mod 10 = m mod 10" using b by (intro digit_char_inj) simp_all
    ultimately show ?thesis by (metis div_mult_mod_eq)
  qed
qed

lemma show_long_chars: "list_all long_char (show_long i)"
  using dec_nat_numeric [of "nat i"] dec_nat_numeric [of "nat (- i)"]
  by (auto simp: show_long_def long_char_def list_all_iff)

lemma minus_not_numeric: "\<not> numeric (CHR ''-'')"
  by (simp add: numeric_def)

lemma show_long_inj: "show_long i = show_long j \<Longrightarrow> i = j"
proof -
  assume e: "show_long i = show_long j"
  have hd_num: "numeric (hd (dec_nat n))" for n
    using dec_nat_numeric [of n] dec_nat_not_Nil [of n] by (cases "dec_nat n") simp_all
  show ?thesis
  proof (cases "i < 0")
    case True
    show ?thesis
    proof (cases "j < 0")
      case jn: True
      with True e have "dec_nat (nat (- i)) = dec_nat (nat (- j))" by (simp add: show_long_def)
      then have "nat (- i) = nat (- j)" by (rule dec_nat_inj)
      with True jn show ?thesis by simp
    next
      case False
      with True e have "CHR ''-'' # dec_nat (nat (- i)) = dec_nat (nat j)" by (simp add: show_long_def)
      then have "hd (dec_nat (nat j)) = CHR ''-''" by (metis list.sel(1))
      then show ?thesis using hd_num [of "nat j"] minus_not_numeric by simp
    qed
  next
    case False
    show ?thesis
    proof (cases "j < 0")
      case True
      with False e have "dec_nat (nat i) = CHR ''-'' # dec_nat (nat (- j))" by (simp add: show_long_def)
      then have "hd (dec_nat (nat i)) = CHR ''-''" by (metis list.sel(1))
      then show ?thesis using hd_num [of "nat i"] minus_not_numeric by simp
    next
      case jn: False
      with False e have "dec_nat (nat i) = dec_nat (nat j)" by (simp add: show_long_def)
      then have "nat i = nat j" by (rule dec_nat_inj)
      with False jn show ?thesis by simp
    qed
  qed
qed

lemma split_at_separator:
  assumes "xs @ c # r = ys @ c # r'" and "c \<notin> set xs" and "c \<notin> set ys"
  shows "xs = ys \<and> r = r'"
proof -
  have "takeWhile (\<lambda>x. x \<noteq> c) (xs @ c # r) = xs"
    using assms(2) by (subst takeWhile_append2) auto
  moreover have "takeWhile (\<lambda>x. x \<noteq> c) (ys @ c # r') = ys"
    using assms(3) by (subst takeWhile_append2) auto
  ultimately have "xs = ys" using assms(1) by simp
  then show ?thesis using assms(1) by simp
qed

lemma comma_not_long: "\<not> long_char (CHR '','')"
  by (simp add: long_char_def numeric_def)

lemma semicolon_not_long: "\<not> long_char (CHR '';'')"
  by (simp add: long_char_def numeric_def)

lemma comma_not_in_show_long: "CHR '','' \<notin> set (show_long i)"
  using show_long_chars [of i] comma_not_long by (auto simp: list_all_iff)

lemma semicolon_not_in_show_long: "CHR '';'' \<notin> set (show_long i)"
  using show_long_chars [of i] semicolon_not_long by (auto simp: list_all_iff)

lemma field_split:
  assumes "show_long i @ CHR '','' # r = show_long j @ CHR '','' # r'"
  shows "i = j \<and> r = r'"
  using split_at_separator [OF assms comma_not_in_show_long comma_not_in_show_long]
    show_long_inj by blast

lemma narrow_inj:
  assumes "unat (v::WCHAR) < 256" "unat (w::WCHAR) < 256"
    and eq: "char_of (unat v) = char_of (unat w)"
  shows "v = w"
proof -
  have "(of_char (char_of (unat v)) :: nat) = of_char (char_of (unat w))"
    by (simp only: eq)
  then have "unat v = unat w" using assms(1,2) by simp
  then show ?thesis by (simp add: word_unat_eq_iff)
qed

lemma narrow_not_semicolon:
  assumes "unat (w::WCHAR) < 256" "w \<noteq> 59"
  shows "char_of (unat w) \<noteq> CHR '';''"
proof
  assume "char_of (unat w) = CHR '';''"
  then have "(of_char (char_of (unat w)) :: nat) = of_char (CHR '';'')" by (simp only:)
  then have "unat w = 59" using assms(1) by simp
  then have "w = 59" by (simp add: word_unat_eq_iff)
  then show False using assms(2) by simp
qed

lemma map_narrow_inj:
  "list_all (\<lambda>w. unat w < 256) xs \<Longrightarrow> list_all (\<lambda>w. unat w < 256) ys \<Longrightarrow>
   map (\<lambda>w::WCHAR. char_of (unat w) :: char) xs = map (\<lambda>w. char_of (unat w)) ys \<Longrightarrow> xs = ys"
proof (induction xs arbitrary: ys)
  case Nil
  then show ?case by simp
next
  case (Cons x xs)
  show ?case
  proof (cases ys)
    case Nil
    with Cons.prems(3) show ?thesis by simp
  next
    case (Cons y ys')
    have hd: "(char_of (unat x) :: char) = char_of (unat y)"
      and tl: "map (\<lambda>w. char_of (unat w) :: char) xs = map (\<lambda>w. char_of (unat w)) ys'"
      using Cons.prems(3) unfolding Cons by simp_all
    have bx: "unat x < 256" and by': "unat y < 256"
      and ax: "list_all (\<lambda>w. unat w < 256) xs" and ay: "list_all (\<lambda>w. unat w < 256) ys'"
      using Cons.prems(1,2) unfolding Cons by simp_all
    have "x = y" using bx by' hd by (rule narrow_inj)
    moreover have "xs = ys'" using ax ay tl by (rule Cons.IH)
    ultimately show ?thesis unfolding Cons by simp
  qed
qed

lemma all_zero_replicate: "list_all (\<lambda>w. w = (0::WCHAR)) zs \<Longrightarrow> replicate (length zs) 0 = zs"
  by (induction zs) simp_all

lemma plain_name_decompose:
  assumes "plain_name d"
  shows "d = takeWhile (\<lambda>w. w \<noteq> 0) d @
             replicate (CCHDEVICENAME - length (takeWhile (\<lambda>w. w \<noteq> 0) d)) 0"
proof -
  let ?n = "takeWhile (\<lambda>w. w \<noteq> 0) d" and ?z = "dropWhile (\<lambda>w. w \<noteq> 0) d"
  have "length (?n @ ?z) = CCHDEVICENAME"
    using assms by (simp add: plain_name_def)
  then have len: "length ?z = CCHDEVICENAME - length ?n"
    by (simp del: takeWhile_dropWhile_id)
  have "replicate (length ?z) 0 = ?z"
    using assms by (intro all_zero_replicate) (simp add: plain_name_def)
  then have zrep: "replicate (CCHDEVICENAME - length ?n) 0 = ?z"
    unfolding len .
  have "?n @ replicate (CCHDEVICENAME - length ?n) 0 = ?n @ ?z"
    by (simp only: zrep)
  also have "\<dots> = d"
    by (rule takeWhile_dropWhile_id)
  finally show ?thesis by (rule sym)
qed

lemma narrow_name_plain:
  "plain_name d \<Longrightarrow> narrow_name d = map (\<lambda>w. char_of (unat w)) (takeWhile (\<lambda>w. w \<noteq> 0) d)"
  by (simp add: narrow_name_def plain_name_def)

lemma narrow_name_inj:
  assumes "plain_name d" "plain_name e" "narrow_name d = narrow_name e"
  shows "d = e"
proof -
  let ?nd = "takeWhile (\<lambda>w. w \<noteq> 0) d" and ?ne = "takeWhile (\<lambda>w. w \<noteq> 0) e"
  have ld: "list_all (\<lambda>w. unat w < 256) ?nd"
    using assms(1) unfolding plain_name_def list_all_iff by blast
  have le: "list_all (\<lambda>w. unat w < 256) ?ne"
    using assms(2) unfolding plain_name_def list_all_iff by blast
  have "map (\<lambda>w. char_of (unat w) :: char) ?nd = narrow_name d"
    by (rule narrow_name_plain [OF assms(1), symmetric])
  also have "\<dots> = narrow_name e"
    by (rule assms(3))
  also have "\<dots> = map (\<lambda>w. char_of (unat w)) ?ne"
    by (rule narrow_name_plain [OF assms(2)])
  finally have n: "?nd = ?ne"
    using ld le by (intro map_narrow_inj)
  have "d = ?nd @ replicate (CCHDEVICENAME - length ?nd) 0"
    by (rule plain_name_decompose [OF assms(1)])
  also have "\<dots> = ?ne @ replicate (CCHDEVICENAME - length ?ne) 0"
    by (simp only: n)
  also have "\<dots> = e"
    by (rule plain_name_decompose [OF assms(2), symmetric])
  finally show ?thesis .
qed

lemma semicolon_not_in_narrow_name:
  assumes "plain_name d"
  shows "CHR '';'' \<notin> set (narrow_name d)"
proof
  let ?nd = "takeWhile (\<lambda>w. w \<noteq> 0) d"
  have nn: "narrow_name d = map (\<lambda>w. char_of (unat w)) ?nd"
    by (rule narrow_name_plain [OF assms])
  assume "CHR '';'' \<in> set (narrow_name d)"
  then have "CHR '';'' \<in> (\<lambda>w. char_of (unat w)) ` set ?nd"
    unfolding nn by simp
  then obtain w where w: "w \<in> set ?nd" "CHR '';'' = char_of (unat w)"
    by (rule imageE)
  have "list_all (\<lambda>w. unat w < 256 \<and> w \<noteq> 59) ?nd"
    using assms unfolding plain_name_def by blast
  then have "unat w < 256" "w \<noteq> 59"
    using w(1) unfolding list_all_iff by blast+
  then have "(char_of (unat w) :: char) \<noteq> CHR '';''"
    by (rule narrow_not_semicolon)
  with w(2) show False by simp
qed

lemma tuple_sig_body: "tuple_sig u = tuple_body u @ [CHR '';'']"
  by (simp add: tuple_sig_def tuple_body_def)

lemma semicolon_not_in_body:
  assumes "plain_name (snd (snd u))"
  shows "CHR '';'' \<notin> set (tuple_body u)"
  using semicolon_not_in_narrow_name [OF assms]
  by (simp add: tuple_body_def semicolon_not_in_show_long)

lemma tuple_body_inj:
  assumes eq: "tuple_body u = tuple_body v"
    and pu: "plain_name (snd (snd u))" and pv: "plain_name (snd (snd v))"
  shows "u = v"
proof -
  note e0 = eq [unfolded tuple_body_def]
  note l = field_split [OF e0, THEN conjunct1] and e1 = field_split [OF e0, THEN conjunct2]
  note t = field_split [OF e1, THEN conjunct1] and e2 = field_split [OF e1, THEN conjunct2]
  note r = field_split [OF e2, THEN conjunct1] and e3 = field_split [OF e2, THEN conjunct2]
  note b = field_split [OF e3, THEN conjunct1] and e4 = field_split [OF e3, THEN conjunct2]
  note p = field_split [OF e4, THEN conjunct1] and e5 = field_split [OF e4, THEN conjunct2]
  have d: "snd (snd u) = snd (snd v)"
    using pu pv e5 by (rule narrow_name_inj)
  have "fst u = fst v"
    using l t r b by (intro RECT.equality) simp_all
  moreover have "fst (snd u) = fst (snd v)"
    using p by (simp split: if_splits)
  ultimately show ?thesis
    using d by (simp add: prod_eq_iff)
qed

lemma tuple_sigs_inj:
  "list_all (\<lambda>u. plain_name (snd (snd u))) us \<Longrightarrow> list_all (\<lambda>u. plain_name (snd (snd u))) vs \<Longrightarrow>
   concat (map tuple_sig us) = concat (map tuple_sig vs) \<Longrightarrow> us = vs"
proof (induction us arbitrary: vs)
  case Nil
  show ?case
  proof (cases vs)
    case Nil
    then show ?thesis by simp
  next
    case (Cons v vs')
    with Nil.prems(3) show ?thesis by (simp add: tuple_sig_body)
  qed
next
  case (Cons u us)
  show ?case
  proof (cases vs)
    case Nil
    with Cons.prems(3) show ?thesis by (simp add: tuple_sig_body)
  next
    case vs: (Cons v vs')
    have pu: "plain_name (snd (snd u))" and pus: "list_all (\<lambda>u. plain_name (snd (snd u))) us"
      using Cons.prems(1) by simp_all
    have pv: "plain_name (snd (snd v))" and pvs: "list_all (\<lambda>u. plain_name (snd (snd u))) vs'"
      using Cons.prems(2) unfolding vs by simp_all
    have "tuple_body u @ CHR '';'' # concat (map tuple_sig us)
          = tuple_body v @ CHR '';'' # concat (map tuple_sig vs')"
      using Cons.prems(3) unfolding vs by (simp add: tuple_sig_body [of u] tuple_sig_body [of v])
    then have "tuple_body u = tuple_body v \<and> concat (map tuple_sig us) = concat (map tuple_sig vs')"
      using semicolon_not_in_body [OF pu] semicolon_not_in_body [OF pv]
      by (rule split_at_separator)
    then have "u = v" and "us = vs'"
      using tuple_body_inj [OF _ pu pv] Cons.IH [OF pus pvs] by blast+
    then show ?thesis unfolding vs by simp
  qed
qed

lemma signature_determines_tuples:
  assumes pl: "\<forall>m\<in>set xs \<union> set ys. plain_name (device m)"
    and eq: "snd (BuildTopoSignature xs) = snd (BuildTopoSignature ys)"
  shows "mset (map monitor_tuple xs) = mset (map monitor_tuple ys)"
proof -
  define us where "us = map monitor_tuple (std_sort monitor_less xs)"
  define vs where "vs = map monitor_tuple (std_sort monitor_less ys)"
  have sx: "snd (BuildTopoSignature xs) = concat (map tuple_sig us)"
    by (simp add: BuildTopoSignature_def Let_def us_def monitor_sig_tuple [abs_def] comp_def)
  have sy: "snd (BuildTopoSignature ys) = concat (map tuple_sig vs)"
    by (simp add: BuildTopoSignature_def Let_def vs_def monitor_sig_tuple [abs_def] comp_def)
  have pu: "list_all (\<lambda>u. plain_name (snd (snd u))) us"
    using pl by (simp add: us_def list_all_iff set_std_sort monitor_tuple_def)
  have pv: "list_all (\<lambda>u. plain_name (snd (snd u))) vs"
    using pl by (simp add: vs_def list_all_iff set_std_sort monitor_tuple_def)
  have "concat (map tuple_sig us) = concat (map tuple_sig vs)"
    using eq unfolding sx sy .
  with pu pv have "us = vs" by (rule tuple_sigs_inj)
  then have "mset us = mset vs" by simp
  then show ?thesis
    unfolding us_def vs_def by (simp only: mset_map mset_std_sort)
qed

text \<open>
  Claim C3, as stated: lists with the same multiset of (rectangle, primary flag, device
  name) tuples have identical signatures, and lists with different multisets have different
  signatures. Both halves fail. Two records with the same device name and origin and
  different sizes are not separated by the comparator, stay in their input order, and the
  two orders give different signatures. And a device name is cut to the low byte of each
  code unit, so the names U+0141 and U+0041 ("A") give the same signature.
\<close>

theorem C3_counterexample:
  "mset (map monitor_tuple
      [\<lparr>handle = 1, rc = \<lparr>rleft = 0, rtop = 0, rright = 800, rbottom = 600\<rparr>, primary = True,
        device = 65 # replicate 31 0\<rparr>,
       \<lparr>handle = 2, rc = \<lparr>rleft = 0, rtop = 0, rright = 1024, rbottom = 768\<rparr>, primary = True,
        device = 65 # replicate 31 0\<rparr>])
   = mset (map monitor_tuple
      [\<lparr>handle = 2, rc = \<lparr>rleft = 0, rtop = 0, rright = 1024, rbottom = 768\<rparr>, primary = True,
        device = 65 # replicate 31 0\<rparr>,
       \<lparr>handle = 1, rc = \<lparr>rleft = 0, rtop = 0, rright = 800, rbottom = 600\<rparr>, primary = True,
        device = 65 # replicate 31 0\<rparr>]) \<and>
   snd (BuildTopoSignature
      [\<lparr>handle = 1, rc = \<lparr>rleft = 0, rtop = 0, rright = 800, rbottom = 600\<rparr>, primary = True,
        device = 65 # replicate 31 0\<rparr>,
       \<lparr>handle = 2, rc = \<lparr>rleft = 0, rtop = 0, rright = 1024, rbottom = 768\<rparr>, primary = True,
        device = 65 # replicate 31 0\<rparr>]) = ''0,0,800,600,1,A;0,0,1024,768,1,A;'' \<and>
   snd (BuildTopoSignature
      [\<lparr>handle = 2, rc = \<lparr>rleft = 0, rtop = 0, rright = 1024, rbottom = 768\<rparr>, primary = True,
        device = 65 # replicate 31 0\<rparr>,
       \<lparr>handle = 1, rc = \<lparr>rleft = 0, rtop = 0, rright = 800, rbottom = 600\<rparr>, primary = True,
        device = 65 # replicate 31 0\<rparr>]) = ''0,0,1024,768,1,A;0,0,800,600,1,A;'' \<and>
   mset (map monitor_tuple
      [\<lparr>handle = 1, rc = \<lparr>rleft = 0, rtop = 0, rright = 800, rbottom = 600\<rparr>, primary = True,
        device = 321 # replicate 31 0\<rparr>])
   \<noteq> mset (map monitor_tuple
      [\<lparr>handle = 1, rc = \<lparr>rleft = 0, rtop = 0, rright = 800, rbottom = 600\<rparr>, primary = True,
        device = 65 # replicate 31 0\<rparr>]) \<and>
   snd (BuildTopoSignature
      [\<lparr>handle = 1, rc = \<lparr>rleft = 0, rtop = 0, rright = 800, rbottom = 600\<rparr>, primary = True,
        device = 321 # replicate 31 0\<rparr>]) = ''0,0,800,600,1,A;'' \<and>
   snd (BuildTopoSignature
      [\<lparr>handle = 1, rc = \<lparr>rleft = 0, rtop = 0, rright = 800, rbottom = 600\<rparr>, primary = True,
        device = 65 # replicate 31 0\<rparr>]) = ''0,0,800,600,1,A;''"
proof (intro conjI)
  show "mset (map monitor_tuple
      [\<lparr>handle = 1, rc = \<lparr>rleft = 0, rtop = 0, rright = 800, rbottom = 600\<rparr>, primary = True,
        device = 65 # replicate 31 0\<rparr>,
       \<lparr>handle = 2, rc = \<lparr>rleft = 0, rtop = 0, rright = 1024, rbottom = 768\<rparr>, primary = True,
        device = 65 # replicate 31 0\<rparr>])
   = mset (map monitor_tuple
      [\<lparr>handle = 2, rc = \<lparr>rleft = 0, rtop = 0, rright = 1024, rbottom = 768\<rparr>, primary = True,
        device = 65 # replicate 31 0\<rparr>,
       \<lparr>handle = 1, rc = \<lparr>rleft = 0, rtop = 0, rright = 800, rbottom = 600\<rparr>, primary = True,
        device = 65 # replicate 31 0\<rparr>])"
    by (simp add: monitor_tuple_def)
  show "mset (map monitor_tuple
      [\<lparr>handle = 1, rc = \<lparr>rleft = 0, rtop = 0, rright = 800, rbottom = 600\<rparr>, primary = True,
        device = 321 # replicate 31 0\<rparr>])
   \<noteq> mset (map monitor_tuple
      [\<lparr>handle = 1, rc = \<lparr>rleft = 0, rtop = 0, rright = 800, rbottom = 600\<rparr>, primary = True,
        device = 65 # replicate 31 0\<rparr>])"
    by (simp add: monitor_tuple_def)
qed code_simp+

text \<open>
  Claim C3, amended. Any two monitor lists (device arrays of \<^verbatim>\<open>CCHDEVICENAME\<close> units) that
  hold the same multiset of (rectangle, primary flag, device name) tuples, and in which no
  two records share the sort key (device name, left, top), produce identical signatures
  whatever the order of the records. Conversely, two lists whose device names are plain
  (single-byte characters other than \<open>;\<close>, zero-padded) and whose signatures are equal hold
  the same multiset of tuples.
\<close>

theorem C3_signature_change_detector:
  "((\<forall>m\<in>set xs \<union> set ys. length (device m) = CCHDEVICENAME) \<and>
    mset (map monitor_tuple xs) = mset (map monitor_tuple ys) \<and>
    distinct (map sort_key xs)
      \<longrightarrow> snd (BuildTopoSignature xs) = snd (BuildTopoSignature ys)) \<and>
   ((\<forall>m\<in>set xs \<union> set ys. plain_name (device m)) \<and>
    snd (BuildTopoSignature xs) = snd (BuildTopoSignature ys)
      \<longrightarrow> mset (map monitor_tuple xs) = mset (map monitor_tuple ys))"
  using signature_order_independent [of xs ys] signature_determines_tuples [of xs ys]
  by blast

lemma plain_examples: "plain_name (device mon1)" "plain_name (device mon2)"
  by code_simp+

text \<open>Witness for the amended C3: the two example displays, enumerated in either order.\<close>

theorem C3_signature_change_detector_witness:
  "snd (BuildTopoSignature [mon2, mon1]) = snd (BuildTopoSignature [mon1, mon2]) \<and>
   mset (map monitor_tuple [mon2, mon1]) = mset (map monitor_tuple [mon1, mon2])"
proof -
  have len: "\<forall>m\<in>set [mon2, mon1] \<union> set [mon1, mon2]. length (device m) = CCHDEVICENAME"
    by (simp add: mon1_def mon2_def dev_def CCHDEVICENAME_def)
  have ms: "mset (map monitor_tuple [mon2, mon1]) = mset (map monitor_tuple [mon1, mon2])"
    by simp
  have dist: "distinct (map sort_key [mon2, mon1])"
    by (simp add: sort_key_def mon1_def mon2_def)
  have pl: "\<forall>m\<in>set [mon2, mon1] \<union> set [mon1, mon2]. plain_name (device m)"
    by (simp add: plain_examples)
  have sig: "snd (BuildTopoSignature [mon2, mon1]) = snd (BuildTopoSignature [mon1, mon2])"
    using C3_signature_change_detector [of "[mon2, mon1]" "[mon1, mon2]"] len ms dist by blast
  then have "mset (map monitor_tuple [mon2, mon1]) = mset (map monitor_tuple [mon1, mon2])"
    using C3_signature_change_detector [of "[mon2, mon1]" "[mon1, mon2]"] pl by blast
  with sig show ?thesis by simp
qed

end
